theory Spec2Isabelle
  imports Complex_Main "HOL-Library.Word"
begin

section \<open>SmoothTrack viewer and gaze tracker: the numeric core of \<open>eye_track.py\<close>\<close>

text \<open>
  The development embeds the pose decoder, the two 3D helpers, the render loop over the
  cube, the calibration state machine and the gaze mapper of \<open>eye_track.py\<close>.

  Numbers. A Python \<open>float\<close> is an IEEE-754 binary64 value. The decoder is modelled on
  the 64-bit patterns of the doubles (\<open>64 word\<close>), which is what \<open>struct.unpack\<close>
  copies out of the datagram. The calibration, the gaze mapper and the render loop are
  modelled on binary64 arithmetic (type \<open>f64\<close>): finite values, the two infinities and
  NaN, every operation rounded to nearest with ties to even, overflow to an infinity.
  The two functions \<open>rotate_point\<close> and \<open>project_3d_point\<close> are given on \<open>real\<close> as
  well, for their algebraic properties (the order of the rotations, the image of the
  origin). Python \<open>int\<close> is \<open>int\<close>. Every exception the modelled code can raise is a
  value \<open>Inl e\<close> of a sum type.
\<close>

subsection \<open>Configuration\<close>

definition UDP_PORT :: int where
  "UDP_PORT = 4242"

definition WINDOW_WIDTH :: int where
  "WINDOW_WIDTH = 1280"

definition WINDOW_HEIGHT :: int where
  "WINDOW_HEIGHT = 720"

definition BOX_SCALE :: int where
  "BOX_SCALE = 100"

subsection \<open>Exceptions and Python primitives\<close>

datatype py_error = ZeroDivisionError | ValueError | OverflowError | IndexError | StructError

text \<open>Sequencing of computations that may raise: the first exception wins.\<close>

definition bind_err :: "py_error + 'a \<Rightarrow> ('a \<Rightarrow> py_error + 'b) \<Rightarrow> py_error + 'b" where
  "bind_err m f = (case m of Inl e \<Rightarrow> Inl e | Inr v \<Rightarrow> f v)"

text \<open>True division \<open>a / b\<close> on real numbers raises on a zero divisor.\<close>

definition py_truediv :: "real \<Rightarrow> real \<Rightarrow> py_error + real" where
  "py_truediv a b = (if b = 0 then Inl ZeroDivisionError else Inr (a / b))"

text \<open>\<open>int(r)\<close> truncates towards zero.\<close>

definition py_int :: "real \<Rightarrow> int" where
  "py_int r = (if 0 \<le> r then \<lfloor>r\<rfloor> else \<lceil>r\<rceil>)"

text \<open>\<open>xs[i]\<close> with a non-negative index raises \<open>IndexError\<close> out of range.\<close>

definition py_index :: "'a list \<Rightarrow> nat \<Rightarrow> py_error + 'a" where
  "py_index xs i = (if i < length xs then Inr (xs ! i) else Inl IndexError)"

subsection \<open>Binary64 arithmetic\<close>

text \<open>
  Rounding of a real number to 53 significant bits, to nearest with ties to even. The
  unit in the last place of \<open>x\<close> is \<open>2 ^ quantum_exp x\<close>; below the normal range it is
  the smallest subnormal, \<open>2 ^ - 1074\<close>. The exponent is not bounded above here:
  overflow is decided on the rounded value (\<open>round_fin\<close>).
\<close>

definition round_even :: "real \<Rightarrow> int" where
  "round_even t =
     (let f = \<lfloor>t\<rfloor>; d = t - of_int f
      in if d < 1 / 2 then f else if 1 / 2 < d then f + 1 else if even f then f else f + 1)"

definition quantum_exp :: "real \<Rightarrow> int" where
  "quantum_exp x = max \<lfloor>log 2 \<bar>x\<bar>\<rfloor> (- 1022) - 52"

definition rnd64 :: "real \<Rightarrow> real" where
  "rnd64 x =
     (if x = 0 then 0
      else of_int (round_even (x / 2 powr of_int (quantum_exp x))) * 2 powr of_int (quantum_exp x))"

text \<open>The largest finite double, \<open>(2 - 2 ^ - 52) * 2 ^ 1023\<close>.\<close>

definition max_f64 :: real where
  "max_f64 = (2 ^ 53 - 1) * 2 ^ 971"

text \<open>
  The values of a double. The sign of a zero and the payload of a NaN are left out:
  nothing the program does observes them (comparison, \<open>int()\<close> and the zero test of
  \<open>/\<close> do not tell \<open>-0.0\<close> from \<open>0.0\<close>).
\<close>

datatype f64 = Fin real | PInf | NInf | NaN

text \<open>The reals that are values of finite doubles.\<close>

definition is_double :: "real \<Rightarrow> bool" where
  "is_double r \<longleftrightarrow> rnd64 r = r \<and> \<bar>r\<bar> \<le> max_f64"

definition round_fin :: "real \<Rightarrow> f64" where
  "round_fin r =
     (let v = rnd64 r
      in if max_f64 < v then PInf else if v < - max_f64 then NInf else Fin v)"

fun fneg :: "f64 \<Rightarrow> f64" where
  "fneg (Fin a) = Fin (- a)"
| "fneg PInf = NInf"
| "fneg NInf = PInf"
| "fneg NaN = NaN"

fun fadd :: "f64 \<Rightarrow> f64 \<Rightarrow> f64" where
  "fadd (Fin a) (Fin b) = round_fin (a + b)"
| "fadd (Fin a) PInf = PInf"
| "fadd (Fin a) NInf = NInf"
| "fadd PInf (Fin b) = PInf"
| "fadd PInf PInf = PInf"
| "fadd PInf NInf = NaN"
| "fadd NInf (Fin b) = NInf"
| "fadd NInf NInf = NInf"
| "fadd NInf PInf = NaN"
| "fadd NaN v = NaN"
| "fadd u NaN = NaN"

definition fsub :: "f64 \<Rightarrow> f64 \<Rightarrow> f64" where
  "fsub u v = fadd u (fneg v)"

fun fmul :: "f64 \<Rightarrow> f64 \<Rightarrow> f64" where
  "fmul (Fin a) (Fin b) = round_fin (a * b)"
| "fmul (Fin a) PInf = (if a = 0 then NaN else if 0 < a then PInf else NInf)"
| "fmul (Fin a) NInf = (if a = 0 then NaN else if 0 < a then NInf else PInf)"
| "fmul PInf (Fin b) = (if b = 0 then NaN else if 0 < b then PInf else NInf)"
| "fmul NInf (Fin b) = (if b = 0 then NaN else if 0 < b then NInf else PInf)"
| "fmul PInf PInf = PInf"
| "fmul PInf NInf = NInf"
| "fmul NInf PInf = NInf"
| "fmul NInf NInf = PInf"
| "fmul NaN v = NaN"
| "fmul u NaN = NaN"

text \<open>
  Python's \<open>a / b\<close> on floats raises \<open>ZeroDivisionError\<close> when \<open>b\<close> is zero, whatever
  \<open>a\<close> is, and is the IEEE quotient otherwise.
\<close>

fun fdiv :: "f64 \<Rightarrow> f64 \<Rightarrow> py_error + f64" where
  "fdiv u (Fin b) =
     (if b = 0 then Inl ZeroDivisionError
      else Inr (case u of
                  Fin a \<Rightarrow> round_fin (a / b)
                | PInf \<Rightarrow> (if 0 < b then PInf else NInf)
                | NInf \<Rightarrow> (if 0 < b then NInf else PInf)
                | NaN \<Rightarrow> NaN))"
| "fdiv (Fin a) PInf = Inr (Fin 0)"
| "fdiv (Fin a) NInf = Inr (Fin 0)"
| "fdiv PInf PInf = Inr NaN"
| "fdiv PInf NInf = Inr NaN"
| "fdiv NInf PInf = Inr NaN"
| "fdiv NInf NInf = Inr NaN"
| "fdiv NaN v = Inr NaN"
| "fdiv u NaN = Inr NaN"

text \<open>\<open>v != 0\<close>: true of NaN and of the infinities.\<close>

definition fne0 :: "f64 \<Rightarrow> bool" where
  "fne0 v \<longleftrightarrow> v \<noteq> Fin 0"

text \<open>\<open>u < v\<close>: false as soon as one side is NaN.\<close>

fun flt :: "f64 \<Rightarrow> f64 \<Rightarrow> bool" where
  "flt (Fin a) (Fin b) = (a < b)"
| "flt (Fin a) PInf = True"
| "flt NInf (Fin b) = True"
| "flt NInf PInf = True"
| "flt u v = False"

text \<open>\<open>int(v)\<close> on a float: truncation, \<open>ValueError\<close> on NaN, \<open>OverflowError\<close> on an infinity.\<close>

fun py_int_f64 :: "f64 \<Rightarrow> py_error + int" where
  "py_int_f64 (Fin a) = Inr (py_int a)"
| "py_int_f64 NaN = Inl ValueError"
| "py_int_f64 PInf = Inl OverflowError"
| "py_int_f64 NInf = Inl OverflowError"

text \<open>
  A Python \<open>int\<close> that meets a float in an operation is converted to a float. The ints
  that the program converts are its constants (1280, 720, 100 and smaller ones), which
  are doubles, so the conversion is exact.
\<close>

definition float_of_int :: "int \<Rightarrow> f64" where
  "float_of_int n = Fin (of_int n)"

text \<open>
  \<open>min(xs)\<close> and \<open>max(xs)\<close> keep the first element and replace it by a later one that
  compares smaller (greater); they raise \<open>ValueError\<close> on the empty list.
\<close>

fun py_min :: "f64 list \<Rightarrow> py_error + f64" where
  "py_min [] = Inl ValueError"
| "py_min (v # vs) = Inr (fold (\<lambda>item best. if flt item best then item else best) vs v)"

fun py_max :: "f64 list \<Rightarrow> py_error + f64" where
  "py_max [] = Inl ValueError"
| "py_max (v # vs) = Inr (fold (\<lambda>item best. if flt best item then item else best) vs v)"

subsection \<open>Pose\<close>

text \<open>
  The pose is the 6-tuple \<open>x, y, z, yaw, pitch, roll\<close>; the type parameter is the
  representation of a float (bit pattern in the decoder, value in the arithmetic).
\<close>

record 'a pose =
  pose_x :: 'a
  pose_y :: 'a
  pose_z :: 'a
  pose_yaw :: 'a
  pose_pitch :: 'a
  pose_roll :: 'a

subsection \<open>Calibration state machine (event handling of \<open>main\<close>)\<close>

datatype key = K_c | K_SPACE | K_other

datatype event = QUIT | KEYDOWN key | OTHER

text \<open>
  The state variables of \<open>main\<close> that the event loop reads and writes. \<open>calib_step\<close>
  starts at 0 and is only ever incremented, so it is a \<open>nat\<close>. The initial bounds are the
  integers -20 and 20, which are doubles.
\<close>

record app_state =
  running :: bool
  calibrating :: bool
  calib_step :: nat
  calib_points :: "(f64 \<times> f64) list"
  min_yaw :: f64
  max_yaw :: f64
  min_pitch :: f64
  max_pitch :: f64

definition initial_state :: app_state where
  "initial_state = \<lparr>running = True, calibrating = False, calib_step = 0, calib_points = [],
     min_yaw = Fin (- 20), max_yaw = Fin 20, min_pitch = Fin (- 20), max_pitch = Fin 20\<rparr>"

text \<open>One iteration of the body of \<open>for event in pygame.event.get()\<close>, at the live pose.\<close>

fun handle_event :: "f64 pose \<Rightarrow> app_state \<Rightarrow> event \<Rightarrow> py_error + app_state" where
  "handle_event p st QUIT = Inr (st\<lparr>running := False\<rparr>)"
| "handle_event p st (KEYDOWN K_c) =
     Inr (st\<lparr>calibrating := True, calib_step := 0, calib_points := []\<rparr>)"
| "handle_event p st (KEYDOWN K_SPACE) =
     (if calibrating st then
        let st1 = st\<lparr>calib_points := calib_points st @ [(pose_yaw p, pose_pitch p)]\<rparr>;
            st2 = st1\<lparr>calib_step := calib_step st1 + 1\<rparr>
        in if calib_step st2 > 3 then
             let yaws = map fst (calib_points st2);
                 pitchs = map snd (calib_points st2)
             in bind_err (py_min yaws) (\<lambda>mny.
                bind_err (py_max yaws) (\<lambda>mxy.
                bind_err (py_min pitchs) (\<lambda>mnp.
                bind_err (py_max pitchs) (\<lambda>mxp.
                  Inr (st2\<lparr>min_yaw := mny, max_yaw := mxy,
                            min_pitch := mnp, max_pitch := mxp,
                            calibrating := False\<rparr>)))))
           else Inr st2
      else Inr st)"
| "handle_event p st (KEYDOWN K_other) = Inr st"
| "handle_event p st OTHER = Inr st"

text \<open>
  A run of triggers, each paired with the pose that is live in the frame it arrives in.
  An exception ends the run.
\<close>

fun handle_events :: "app_state \<Rightarrow> (f64 pose \<times> event) list \<Rightarrow> py_error + app_state" where
  "handle_events st [] = Inr st"
| "handle_events st ((p, ev) # evs) =
     bind_err (handle_event p st ev) (\<lambda>st'. handle_events st' evs)"

text \<open>
  The calibration prompt of the UI text block: the label \<open>steps[calib_step]\<close> and the
  position of the marker the user is asked to look at; nothing while not calibrating.
\<close>

definition steps :: "string list" where
  "steps = [''Top-Left'', ''Top-Right'', ''Bottom-Right'', ''Bottom-Left'']"

definition calibration_prompt :: "app_state \<Rightarrow> py_error + (string \<times> int \<times> int) option" where
  "calibration_prompt st =
     (if calibrating st then
        bind_err (py_index steps (calib_step st)) (\<lambda>label.
          let c = (if calib_step st = 0 then (20, 20)
                   else if calib_step st = 1 then (WINDOW_WIDTH - 20, 20)
                   else if calib_step st = 2 then (WINDOW_WIDTH - 20, WINDOW_HEIGHT - 20)
                   else if calib_step st = 3 then (20, WINDOW_HEIGHT - 20)
                   else (0, 0))
          in Inr (Some (label, c)))
      else Inr None)"

subsection \<open>3D helpers on real numbers\<close>

definition project_3d_point ::
  "real \<Rightarrow> real \<Rightarrow> real \<Rightarrow> real \<Rightarrow> real \<Rightarrow> real \<Rightarrow> py_error + (int \<times> int)" where
  "project_3d_point x y z width height scale =
     bind_err (py_truediv 300 (z + 400)) (\<lambda>factor.
       let screen_x = x * factor * scale + width / 2;
           screen_y = - y * factor * scale + height / 2
       in Inr (py_int screen_x, py_int screen_y))"

text \<open>\<open>math.radians\<close>.\<close>

definition radians :: "real \<Rightarrow> real" where
  "radians d = d * (pi / 180)"

definition rotate_point ::
  "real \<Rightarrow> real \<Rightarrow> real \<Rightarrow> real \<Rightarrow> real \<Rightarrow> real \<Rightarrow> real \<times> real \<times> real" where
  "rotate_point x y z pitch yaw roll =
     (let pitch = radians pitch; yaw = radians yaw; roll = radians roll;
          nx = x * cos yaw - z * sin yaw;
          nz = x * sin yaw + z * cos yaw;
          x = nx; z = nz;
          ny = y * cos pitch - z * sin pitch;
          nz = y * sin pitch + z * cos pitch;
          y = ny; z = nz;
          nx = x * cos roll - y * sin roll;
          ny = x * sin roll + y * cos roll;
          x = nx; y = ny
      in (x, y, z))"

text \<open>
  The wording of the specification, for comparison with \<open>rotate_point\<close>: a standard
  rotation of two coordinates by an angle in degrees, and the three of them applied to
  the point put out by the previous one, yaw first, then pitch, then roll.
\<close>

definition planar_rotation :: "real \<Rightarrow> real \<times> real \<Rightarrow> real \<times> real" where
  "planar_rotation deg ab =
     (fst ab * cos (radians deg) - snd ab * sin (radians deg),
      fst ab * sin (radians deg) + snd ab * cos (radians deg))"

definition spec_yaw_step :: "real \<Rightarrow> real \<times> real \<times> real \<Rightarrow> real \<times> real \<times> real" where
  "spec_yaw_step yaw v =
     (case v of (x, y, z) \<Rightarrow> (case planar_rotation yaw (x, z) of (x', z') \<Rightarrow> (x', y, z')))"

definition spec_pitch_step :: "real \<Rightarrow> real \<times> real \<times> real \<Rightarrow> real \<times> real \<times> real" where
  "spec_pitch_step pitch v =
     (case v of (x, y, z) \<Rightarrow> (case planar_rotation pitch (y, z) of (y', z') \<Rightarrow> (x, y', z')))"

definition spec_roll_step :: "real \<Rightarrow> real \<times> real \<times> real \<Rightarrow> real \<times> real \<times> real" where
  "spec_roll_step roll v =
     (case v of (x, y, z) \<Rightarrow> (case planar_rotation roll (x, y) of (x', y') \<Rightarrow> (x', y', z)))"

definition spec_rotate :: "real \<times> real \<times> real \<Rightarrow> real \<Rightarrow> real \<Rightarrow> real \<Rightarrow> real \<times> real \<times> real" where
  "spec_rotate v pitch yaw roll = spec_roll_step roll (spec_pitch_step pitch (spec_yaw_step yaw v))"

text \<open>\<open>rotate_point\<close> on a point given as a triple, as the specification's \<open>Rotate\<close> takes it.\<close>

definition Rotate :: "real \<times> real \<times> real \<Rightarrow> real \<Rightarrow> real \<Rightarrow> real \<Rightarrow> real \<times> real \<times> real" where
  "Rotate v pitch yaw roll = (case v of (x, y, z) \<Rightarrow> rotate_point x y z pitch yaw roll)"

subsection \<open>3D helpers and the render loop in binary64\<close>

text \<open>
  \<open>math.radians(x)\<close> is \<open>x * degToRad\<close>, with \<open>degToRad\<close> the double quotient of the
  double nearest to \<open>pi\<close> by 180.
\<close>

definition deg_to_rad :: real where
  "deg_to_rad = rnd64 (rnd64 pi / 180)"

definition math_radians :: "f64 \<Rightarrow> f64" where
  "math_radians v = fmul v (Fin deg_to_rad)"

text \<open>
  \<open>math.sin\<close> and \<open>math.cos\<close> return NaN on NaN and raise \<open>ValueError\<close> (math domain
  error) on an infinity. On a finite argument they return what the C library computes;
  that function of the platform is the parameter \<open>f\<close>.
\<close>

fun math_trig :: "(real \<Rightarrow> real) \<Rightarrow> f64 \<Rightarrow> py_error + f64" where
  "math_trig f (Fin a) = Inr (Fin (f a))"
| "math_trig f NaN = Inr NaN"
| "math_trig f PInf = Inl ValueError"
| "math_trig f NInf = Inl ValueError"

text \<open>
  What is assumed of the platform's sine and cosine: the result is a double between -1
  and 1.
\<close>

definition libm_ok :: "(real \<Rightarrow> real) \<Rightarrow> bool" where
  "libm_ok f \<longleftrightarrow> (\<forall>a. \<bar>f a\<bar> \<le> 1)"

text \<open>A sine and a cosine that meet the assumption: the correctly rounded ones.\<close>

definition sin64 :: "real \<Rightarrow> real" where
  "sin64 a = rnd64 (sin a)"

definition cos64 :: "real \<Rightarrow> real" where
  "cos64 a = rnd64 (cos a)"

text \<open>\<open>rotate_point\<close> as it is executed; \<open>sn\<close> and \<open>cs\<close> are the platform's sine and cosine.\<close>

definition rotate_point_f64 ::
  "(real \<Rightarrow> real) \<Rightarrow> (real \<Rightarrow> real) \<Rightarrow> f64 \<Rightarrow> f64 \<Rightarrow> f64 \<Rightarrow> f64 \<Rightarrow> f64 \<Rightarrow> f64
     \<Rightarrow> py_error + (f64 \<times> f64 \<times> f64)" where
  "rotate_point_f64 sn cs x y z pitch yaw roll =
     (let pitch = math_radians pitch; yaw = math_radians yaw; roll = math_radians roll
      in bind_err (math_trig cs yaw) (\<lambda>c1. bind_err (math_trig sn yaw) (\<lambda>s1.
         let nx = fsub (fmul x c1) (fmul z s1)
         in bind_err (math_trig sn yaw) (\<lambda>s2. bind_err (math_trig cs yaw) (\<lambda>c2.
         let nz = fadd (fmul x s2) (fmul z c2);
             x = nx; z = nz
         in bind_err (math_trig cs pitch) (\<lambda>c3. bind_err (math_trig sn pitch) (\<lambda>s3.
         let ny = fsub (fmul y c3) (fmul z s3)
         in bind_err (math_trig sn pitch) (\<lambda>s4. bind_err (math_trig cs pitch) (\<lambda>c4.
         let nz = fadd (fmul y s4) (fmul z c4);
             y = ny; z = nz
         in bind_err (math_trig cs roll) (\<lambda>c5. bind_err (math_trig sn roll) (\<lambda>s5.
         let nx = fsub (fmul x c5) (fmul y s5)
         in bind_err (math_trig sn roll) (\<lambda>s6. bind_err (math_trig cs roll) (\<lambda>c6.
         let ny = fadd (fmul x s6) (fmul y c6);
             x = nx; y = ny
         in Inr (x, y, z))))))))))))))"

text \<open>\<open>project_3d_point\<close> as it is executed.\<close>

definition project_3d_point_f64 ::
  "f64 \<Rightarrow> f64 \<Rightarrow> f64 \<Rightarrow> f64 \<Rightarrow> f64 \<Rightarrow> f64 \<Rightarrow> py_error + (int \<times> int)" where
  "project_3d_point_f64 x y z width height scale =
     bind_err (fdiv (float_of_int 300) (fadd z (float_of_int 400))) (\<lambda>factor.
     bind_err (fdiv width (float_of_int 2)) (\<lambda>half_width.
       let screen_x = fadd (fmul (fmul x factor) scale) half_width
       in bind_err (fdiv height (float_of_int 2)) (\<lambda>half_height.
       let screen_y = fadd (fmul (fmul (fneg y) factor) scale) half_height
       in bind_err (py_int_f64 screen_x) (\<lambda>ix.
          bind_err (py_int_f64 screen_y) (\<lambda>iy. Inr (ix, iy))))))"

definition vertices :: "(int \<times> int \<times> int) list" where
  "vertices = [(- 1, - 1, - 1), (1, - 1, - 1), (1, 1, - 1), (- 1, 1, - 1),
               (- 1, - 1, 1), (1, - 1, 1), (1, 1, 1), (- 1, 1, 1)]"

text \<open>The first statement of the body of \<open>for v in vertices\<close>: the rotated vertex.\<close>

definition rotated_vertex ::
  "(real \<Rightarrow> real) \<Rightarrow> (real \<Rightarrow> real) \<Rightarrow> f64 pose \<Rightarrow> int \<times> int \<times> int
     \<Rightarrow> py_error + (f64 \<times> f64 \<times> f64)" where
  "rotated_vertex sn cs p v =
     (case v of (v0, v1, v2) \<Rightarrow>
        rotate_point_f64 sn cs (float_of_int v0) (float_of_int v1) (float_of_int v2)
          (pose_pitch p) (pose_yaw p) (pose_roll p))"

text \<open>The body of \<open>for v in vertices\<close>.\<close>

definition transform_vertex ::
  "(real \<Rightarrow> real) \<Rightarrow> (real \<Rightarrow> real) \<Rightarrow> f64 pose \<Rightarrow> int \<times> int \<times> int \<Rightarrow> py_error + (int \<times> int)" where
  "transform_vertex sn cs p v =
     bind_err (rotated_vertex sn cs p v) (\<lambda>r.
       case r of (rx, ry, rz) \<Rightarrow>
         bind_err (fdiv (pose_x p) (float_of_int 10)) (\<lambda>dx.
         let tx = fadd rx dx
         in bind_err (fdiv (pose_y p) (float_of_int 10)) (\<lambda>dy.
         let ty = fadd ry dy;
             tz = fsub rz (float_of_int 5)
         in project_3d_point_f64 tx ty tz (float_of_int WINDOW_WIDTH)
              (float_of_int WINDOW_HEIGHT) (float_of_int BOX_SCALE))))"

text \<open>A loop that appends one result per element and stops at the first exception.\<close>

fun map_err :: "('a \<Rightarrow> py_error + 'b) \<Rightarrow> 'a list \<Rightarrow> py_error + 'b list" where
  "map_err f [] = Inr []"
| "map_err f (v # vs) = bind_err (f v) (\<lambda>r. bind_err (map_err f vs) (\<lambda>rs. Inr (r # rs)))"

definition proj_points ::
  "(real \<Rightarrow> real) \<Rightarrow> (real \<Rightarrow> real) \<Rightarrow> f64 pose \<Rightarrow> py_error + (int \<times> int) list" where
  "proj_points sn cs p = map_err (transform_vertex sn cs p) vertices"

subsection \<open>Gaze mapper\<close>

text \<open>Coarse mode: normalise by the stored bounds, scale, clamp to the window.\<close>

definition coarse_gaze :: "app_state \<Rightarrow> f64 pose \<Rightarrow> py_error + (int \<times> int)" where
  "coarse_gaze st p =
     (let yaw_range = (if fne0 (fsub (max_yaw st) (min_yaw st))
                       then fsub (max_yaw st) (min_yaw st) else float_of_int 1);
          pitch_range = (if fne0 (fsub (max_pitch st) (min_pitch st))
                         then fsub (max_pitch st) (min_pitch st) else float_of_int 1)
      in bind_err (fdiv (fsub (pose_yaw p) (min_yaw st)) yaw_range) (\<lambda>norm_x.
         bind_err (fdiv (fsub (pose_pitch p) (min_pitch st)) pitch_range) (\<lambda>norm_y.
         bind_err (py_int_f64 (fmul norm_x (float_of_int WINDOW_WIDTH))) (\<lambda>ix.
         let screen_gaze_x = max 0 (min WINDOW_WIDTH ix)
         in bind_err (py_int_f64 (fmul norm_y (float_of_int WINDOW_HEIGHT))) (\<lambda>iy.
         let screen_gaze_y = max 0 (min WINDOW_HEIGHT iy)
         in Inr (screen_gaze_x, screen_gaze_y))))))"

text \<open>\<open>(calib_points[i][k] + calib_points[j][k]) / 2\<close>, with \<open>sel\<close> the component \<open>k\<close>.\<close>

definition corner_avg ::
  "(f64 \<times> f64) list \<Rightarrow> nat \<Rightarrow> nat \<Rightarrow> (f64 \<times> f64 \<Rightarrow> f64) \<Rightarrow> py_error + f64" where
  "corner_avg pts i j sel =
     bind_err (py_index pts i) (\<lambda>a. bind_err (py_index pts j) (\<lambda>b.
       fdiv (fadd (sel a) (sel b)) (float_of_int 2)))"

text \<open>The four averaged edges of the table, under the names the code gives them.\<close>

definition yaw_left :: "(f64 \<times> f64) list \<Rightarrow> py_error + f64" where
  "yaw_left pts = corner_avg pts 0 3 fst"

definition yaw_right :: "(f64 \<times> f64) list \<Rightarrow> py_error + f64" where
  "yaw_right pts = corner_avg pts 1 2 fst"

definition pitch_top :: "(f64 \<times> f64) list \<Rightarrow> py_error + f64" where
  "pitch_top pts = corner_avg pts 0 1 snd"

definition pitch_bottom :: "(f64 \<times> f64) list \<Rightarrow> py_error + f64" where
  "pitch_bottom pts = corner_avg pts 2 3 snd"

text \<open>
  \<open>(v - lo) / (hi - lo) if (hi - lo) != 0 else 0.5\<close>: the condition is evaluated first,
  the quotient only when it holds.
\<close>

definition guarded_ratio :: "f64 \<Rightarrow> f64 \<Rightarrow> f64 \<Rightarrow> py_error + f64" where
  "guarded_ratio v lo hi =
     (if fne0 (fsub hi lo) then fdiv (fsub v lo) (fsub hi lo) else Inr (Fin 0.5))"

text \<open>Corner interpolation: \<open>ratio_x\<close> and \<open>ratio_y\<close> from the four corner samples.\<close>

definition corner_ratios :: "(f64 \<times> f64) list \<Rightarrow> f64 \<Rightarrow> f64 \<Rightarrow> py_error + (f64 \<times> f64)" where
  "corner_ratios pts yaw pitch =
     bind_err (yaw_left pts) (\<lambda>yl.
     bind_err (yaw_right pts) (\<lambda>yr.
     bind_err (pitch_top pts) (\<lambda>pt.
     bind_err (pitch_bottom pts) (\<lambda>pb.
     bind_err (guarded_ratio yaw yl yr) (\<lambda>ratio_x.
     bind_err (guarded_ratio pitch pt pb) (\<lambda>ratio_y.
       Inr (ratio_x, ratio_y)))))))"

definition corner_gaze :: "(f64 \<times> f64) list \<Rightarrow> f64 pose \<Rightarrow> py_error + (int \<times> int)" where
  "corner_gaze pts p =
     bind_err (corner_ratios pts (pose_yaw p) (pose_pitch p)) (\<lambda>r.
     bind_err (py_int_f64 (fmul (fst r) (float_of_int WINDOW_WIDTH))) (\<lambda>screen_gaze_x.
     bind_err (py_int_f64 (fmul (snd r) (float_of_int WINDOW_HEIGHT))) (\<lambda>screen_gaze_y.
       Inr (screen_gaze_x, screen_gaze_y))))"

text \<open>
  The gaze block of a frame. The result is \<open>None\<close> while calibrating; otherwise the final
  values of \<open>screen_gaze_x, screen_gaze_y\<close> and whether the dot was drawn (it is drawn
  only on the corner path).
\<close>

definition draw_gaze :: "app_state \<Rightarrow> f64 pose \<Rightarrow> py_error + ((int \<times> int) \<times> bool) option" where
  "draw_gaze st p =
     (if \<not> calibrating st then
        bind_err (coarse_gaze st p) (\<lambda>screen_gaze.
          if length (calib_points st) = 4 then
            bind_err (corner_gaze (calib_points st) p) (\<lambda>screen_gaze. Inr (Some (screen_gaze, True)))
          else Inr (Some (screen_gaze, False)))
      else Inr None)"

subsection \<open>Pose decoder\<close>

text \<open>
  The format \<open>'dddddd'\<close> has no prefix: native byte order, native size and alignment, six
  doubles of 8 bytes each and no padding. The byte order of the host is a parameter.
\<close>

datatype byteorder = LittleEndian | BigEndian

type_synonym byte = "8 word"

type_synonym double = "64 word"

definition unpack_d :: "byteorder \<Rightarrow> byte list \<Rightarrow> double" where
  "unpack_d bo bs = (case bo of BigEndian \<Rightarrow> word_rcat bs | LittleEndian \<Rightarrow> word_rcat (rev bs))"

definition pack_d :: "byteorder \<Rightarrow> double \<Rightarrow> byte list" where
  "pack_d bo w =
     (let le = map (\<lambda>i. ucast (drop_bit (8 * i) w)) [0..<8]
      in case bo of LittleEndian \<Rightarrow> le | BigEndian \<Rightarrow> rev le)"

text \<open>\<open>struct.unpack('dddddd', data)\<close> raises \<open>struct.error\<close> unless the buffer has 48 bytes.\<close>

definition struct_unpack_dddddd :: "byteorder \<Rightarrow> byte list \<Rightarrow> py_error + double pose" where
  "struct_unpack_dddddd bo data =
     (if length data \<noteq> 48 then Inl StructError
      else Inr \<lparr>pose_x = unpack_d bo (take 8 data),
                pose_y = unpack_d bo (take 8 (drop 8 data)),
                pose_z = unpack_d bo (take 8 (drop 16 data)),
                pose_yaw = unpack_d bo (take 8 (drop 24 data)),
                pose_pitch = unpack_d bo (take 8 (drop 32 data)),
                pose_roll = unpack_d bo (take 8 (drop 40 data))\<rparr>)"

text \<open>\<open>struct.pack('dddddd', x, y, z, yaw, pitch, roll)\<close>, the encoder of the same format.\<close>

definition struct_pack_dddddd :: "byteorder \<Rightarrow> double pose \<Rightarrow> byte list" where
  "struct_pack_dddddd bo p =
     pack_d bo (pose_x p) @ pack_d bo (pose_y p) @ pack_d bo (pose_z p) @
     pack_d bo (pose_yaw p) @ pack_d bo (pose_pitch p) @ pack_d bo (pose_roll p)"

text \<open>
  \<open>sock.recvfrom(1024)\<close> on a datagram socket hands over at most 1024 bytes of the
  payload of the next datagram.
\<close>

definition recvfrom_1024 :: "byte list \<Rightarrow> byte list" where
  "recvfrom_1024 payload = take 1024 payload"

text \<open>The body of the drain loop for one datagram: the decode attempt.\<close>

definition decode_datagram :: "byteorder \<Rightarrow> double pose \<Rightarrow> byte list \<Rightarrow> py_error + double pose" where
  "decode_datagram bo pose payload =
     (let data = recvfrom_1024 payload
      in if length data = 48 then struct_unpack_dddddd bo data else Inr pose)"

text \<open>The drain loop over the datagrams pending in a frame; \<open>BlockingIOError\<close> ends it.\<close>

fun drain :: "byteorder \<Rightarrow> double pose \<Rightarrow> byte list list \<Rightarrow> py_error + double pose" where
  "drain bo pose [] = Inr pose"
| "drain bo pose (d # ds) = bind_err (decode_datagram bo pose d) (\<lambda>pose'. drain bo pose' ds)"

subsection \<open>Notions used to state the properties\<close>

text \<open>The invariant of the calibration state.\<close>

definition calib_inv :: "app_state \<Rightarrow> bool" where
  "calib_inv st \<longleftrightarrow>
     (calibrating st \<longrightarrow> length (calib_points st) = calib_step st \<and> calib_step st < 4)"

text \<open>The samples that the capture triggers of a run present, in the order of the run.\<close>

definition captures :: "(f64 pose \<times> event) list \<Rightarrow> (f64 \<times> f64) list" where
  "captures evs = map (\<lambda>pe. (pose_yaw (fst pe), pose_pitch (fst pe)))
                      (filter (\<lambda>pe. snd pe = KEYDOWN K_SPACE) evs)"

text \<open>A finite value within the range of the doubles.\<close>

definition finite_f64 :: "f64 \<Rightarrow> bool" where
  "finite_f64 v \<longleftrightarrow> (case v of Fin a \<Rightarrow> \<bar>a\<bar> \<le> max_f64 | NaN \<Rightarrow> False | PInf \<Rightarrow> False | NInf \<Rightarrow> False)"

text \<open>A value that is NaN or finite of magnitude at most \<open>n\<close>.\<close>

definition nan_or_within :: "int \<Rightarrow> f64 \<Rightarrow> bool" where
  "nan_or_within n v \<longleftrightarrow> (case v of Fin a \<Rightarrow> \<bar>a\<bar> \<le> of_int n | NaN \<Rightarrow> True | PInf \<Rightarrow> False | NInf \<Rightarrow> False)"

section \<open>Rounding to binary64\<close>

subsection \<open>Rounding to an integer, ties to even\<close>

lemma round_even_of_int [simp]: "round_even (of_int n) = n"
  by (simp add: round_even_def)

lemma round_even_le: "t \<le> of_int n \<Longrightarrow> round_even t \<le> n"
proof -
  assume t: "t \<le> of_int n"
  then have f: "\<lfloor>t\<rfloor> \<le> n" by (simp add: floor_le_iff)
  show ?thesis
  proof (cases "\<lfloor>t\<rfloor> = n")
    case True
    with t have "t = of_int n" by linarith
    then show ?thesis by simp
  next
    case False
    with f have "\<lfloor>t\<rfloor> + 1 \<le> n" by simp
    then show ?thesis by (auto simp: round_even_def Let_def)
  qed
qed

lemma round_even_ge: "of_int n \<le> t \<Longrightarrow> n \<le> round_even t"
proof -
  assume "of_int n \<le> t"
  then have "n \<le> \<lfloor>t\<rfloor>" by (simp add: le_floor_iff)
  then show ?thesis by (auto simp: round_even_def Let_def)
qed

lemma round_even_minus: "round_even (- t) = - round_even t"
proof (cases "t = of_int \<lfloor>t\<rfloor>")
  case True
  then obtain n where "t = of_int n" ..
  then show ?thesis by (simp flip: of_int_minus)
next
  case False
  then have fl: "\<lfloor>- t\<rfloor> = - \<lfloor>t\<rfloor> - 1"
    by (intro floor_unique) (simp; linarith)+
  have d: "- t - of_int \<lfloor>- t\<rfloor> = 1 - (t - of_int \<lfloor>t\<rfloor>)"
    by (simp add: fl)
  show ?thesis
    unfolding round_even_def Let_def d
    by (auto simp: fl)
qed

subsection \<open>The unit in the last place\<close>

lemma quantum_exp_ge: "- 1074 \<le> quantum_exp x"
  by (simp add: quantum_exp_def)

lemma quantum_exp_minus [simp]: "quantum_exp (- x) = quantum_exp x"
  by (simp add: quantum_exp_def)

lemma abs_less_quantum:
  assumes "x \<noteq> 0"
  shows "\<bar>x\<bar> < 2 powr of_int (quantum_exp x + 53)"
proof -
  have "\<bar>x\<bar> < 2 powr (of_int \<lfloor>log 2 \<bar>x\<bar>\<rfloor> + 1)"
    using assms floor_log_eq_powr_iff [of "\<bar>x\<bar>" 2 "\<lfloor>log 2 \<bar>x\<bar>\<rfloor>"] by simp
  also have "\<dots> \<le> 2 powr of_int (quantum_exp x + 53)"
    by (simp add: quantum_exp_def)
  finally show ?thesis .
qed

lemma quantum_le_abs:
  assumes "x \<noteq> 0" and "- 1074 < quantum_exp x"
  shows "2 powr of_int (quantum_exp x + 52) \<le> \<bar>x\<bar>"
proof -
  from assms(2) have "quantum_exp x + 52 = \<lfloor>log 2 \<bar>x\<bar>\<rfloor>"
    by (simp add: quantum_exp_def max_def split: if_splits)
  moreover have "2 powr of_int \<lfloor>log 2 \<bar>x\<bar>\<rfloor> \<le> \<bar>x\<bar>"
    using assms(1) floor_log_eq_powr_iff [of "\<bar>x\<bar>" 2 "\<lfloor>log 2 \<bar>x\<bar>\<rfloor>"] by simp
  ultimately show ?thesis by simp
qed

lemma quantum_exp_le:
  assumes "x \<noteq> 0" and "\<bar>x\<bar> < 2 powr of_int (j + 53)" and "- 1074 \<le> j"
  shows "quantum_exp x \<le> j"
proof (rule ccontr)
  assume "\<not> quantum_exp x \<le> j"
  then have q: "j < quantum_exp x" by simp
  with assms(3) have "- 1074 < quantum_exp x" by simp
  from quantum_le_abs [OF assms(1) this] have "2 powr of_int (quantum_exp x + 52) \<le> \<bar>x\<bar>" .
  moreover from q have "2 powr of_int (j + 53) \<le> (2::real) powr of_int (quantum_exp x + 52)"
    by (intro powr_mono) simp_all
  ultimately show False using assms(2) by linarith
qed

subsection \<open>Powers of two\<close>

lemma powr_int_diff:
  assumes "q \<le> j"
  shows "2 powr of_int j / 2 powr of_int q = (2::real) ^ nat (j - q)"
proof -
  from assms have "real_of_int j = real_of_int q + real (nat (j - q))" by simp
  then have "(2::real) powr of_int j = 2 powr of_int q * 2 powr real (nat (j - q))"
    by (simp only: powr_add)
  also have "(2::real) powr real (nat (j - q)) = 2 ^ nat (j - q)"
    by (rule powr_realpow) simp
  finally show ?thesis by simp
qed

lemma two_powr_53: "(2::real) ^ 53 * 2 powr of_int j = 2 powr of_int (j + 53)"
proof -
  have "(2::real) powr of_int (j + 53) = 2 powr (of_int j + real 53)" by simp
  also have "\<dots> = 2 powr of_int j * 2 powr real 53" by (simp only: powr_add)
  also have "(2::real) powr real 53 = 2 ^ 53" by (rule powr_realpow) simp
  finally show ?thesis by (simp only: mult.commute)
qed

lemma two_powr_Suc: "(2::real) powr of_int (q + 1) = 2 * 2 powr of_int q"
proof -
  have "(2::real) powr of_int (q + 1) = 2 powr (of_int q + 1)" by simp
  also have "\<dots> = 2 powr of_int q * 2 powr 1" by (simp only: powr_add)
  finally show ?thesis by simp
qed

lemma two_powr_nat: "(2::real) powr real k = 2 ^ k"
  by (simp add: powr_realpow)

lemma two_powr_neg_nat: "(2::real) powr (- real k) = 1 / 2 ^ k"
  by (simp add: powr_minus powr_realpow divide_inverse)

lemma int_less_2_53: "\<bar>n\<bar> < 2 ^ 53 \<Longrightarrow> real_of_int \<bar>n\<bar> < 2 ^ 53"
  by (metis of_int_less_iff of_int_numeral of_int_power)

subsection \<open>Values that are their own rounding\<close>

lemma rnd64_0 [simp]: "rnd64 0 = 0"
  by (simp add: rnd64_def)

lemma rnd64_minus: "rnd64 (- x) = - rnd64 x"
  by (simp add: rnd64_def round_even_minus)

text \<open>A value \<open>n * 2 ^ j\<close> with a mantissa of at most 53 bits is its own rounding.\<close>

lemma rnd64_exact:
  assumes "\<bar>n\<bar> < 2 ^ 53" and "- 1074 \<le> j"
  shows "rnd64 (of_int n * 2 powr of_int j) = of_int n * 2 powr of_int j"
proof (cases "n = 0")
  case True
  then show ?thesis by simp
next
  case False
  define x :: real where "x = of_int n * 2 powr of_int j"
  define q where "q = quantum_exp x"
  from False have x0: "x \<noteq> 0" by (simp add: x_def)
  have n: "real_of_int \<bar>n\<bar> < 2 ^ 53"
    using assms(1) by (rule int_less_2_53)
  have "\<bar>x\<bar> = real_of_int \<bar>n\<bar> * 2 powr of_int j" by (simp add: x_def abs_mult)
  also have "\<dots> < 2 ^ 53 * 2 powr of_int j"
    using n by (rule mult_strict_right_mono) simp
  also have "\<dots> = 2 powr of_int (j + 53)" by (rule two_powr_53)
  finally have qj: "q \<le> j" unfolding q_def using quantum_exp_le [OF x0 _ assms(2)] by blast
  have div: "x / 2 powr of_int q = of_int (n * 2 ^ nat (j - q))"
  proof -
    have "x / 2 powr of_int q = of_int n * (2 powr of_int j / 2 powr of_int q)"
      by (simp add: x_def)
    also have "\<dots> = of_int n * 2 ^ nat (j - q)" by (simp only: powr_int_diff [OF qj])
    finally show ?thesis by simp
  qed
  have restore: "of_int (n * 2 ^ nat (j - q)) * 2 powr of_int q = x"
  proof -
    have "x / 2 powr of_int q * 2 powr of_int q = x" by simp
    then show ?thesis by (simp only: div)
  qed
  have "rnd64 x = of_int (round_even (x / 2 powr of_int q)) * 2 powr of_int q"
    using x0 by (simp add: rnd64_def q_def)
  also have "\<dots> = x" by (simp only: div round_even_of_int restore)
  finally show ?thesis by (simp only: x_def)
qed

lemma rnd64_int: "\<bar>n\<bar> < 2 ^ 53 \<Longrightarrow> rnd64 (of_int n) = of_int n"
  using rnd64_exact [of n 0] by simp

lemma rnd64_numeral [simp]: "(numeral w :: int) < 2 ^ 53 \<Longrightarrow> rnd64 (numeral w) = numeral w"
  using rnd64_int [of "numeral w"] by simp

lemma rnd64_neg_numeral [simp]:
  "(numeral w :: int) < 2 ^ 53 \<Longrightarrow> rnd64 (- numeral w) = - numeral w"
  by (simp add: rnd64_minus)

lemma rnd64_1 [simp]: "rnd64 1 = 1"
  using rnd64_int [of 1] by simp

lemma rnd64_dyadic:
  "\<bar>n\<bar> < 2 ^ 53 \<Longrightarrow> k \<le> 1074 \<Longrightarrow> rnd64 (of_int n / 2 ^ k) = of_int n / 2 ^ k"
  using rnd64_exact [of n "- int k"] by (simp add: two_powr_neg_nat)

lemma rnd64_pow2: "rnd64 (2 ^ k) = 2 ^ k"
  using rnd64_exact [of 1 "int k"] by (simp add: two_powr_nat)

subsection \<open>Rounding does not cross a double\<close>

lemma rnd64_nonpos: "x \<le> 0 \<Longrightarrow> rnd64 x \<le> 0"
proof (cases "x = 0")
  case False
  assume "x \<le> 0"
  then have "x / 2 powr of_int (quantum_exp x) \<le> of_int 0"
    by (simp add: divide_nonpos_pos)
  then have "round_even (x / 2 powr of_int (quantum_exp x)) \<le> 0" by (rule round_even_le)
  then have "real_of_int (round_even (x / 2 powr of_int (quantum_exp x))) \<le> 0" by simp
  then show ?thesis using False by (simp add: rnd64_def mult_le_0_iff)
qed simp

lemma rnd64_nonneg: "0 \<le> x \<Longrightarrow> 0 \<le> rnd64 x"
  using rnd64_nonpos [of "- x"] by (simp add: rnd64_minus)

lemma rnd64_le_pos:
  assumes m: "0 < m" "m < 2 ^ 53" and j: "- 1074 \<le> j"
    and x: "0 < x" "x \<le> of_int m * 2 powr of_int j"
  shows "rnd64 x \<le> of_int m * 2 powr of_int j"
proof -
  define q where "q = quantum_exp x"
  have mlt: "real_of_int m < 2 ^ 53"
    using m int_less_2_53 [of m] by simp
  have qj: "q \<le> j"
  proof (rule ccontr)
    assume "\<not> q \<le> j"
    then have jq: "j < q" by simp
    with j have "- 1074 < quantum_exp x" by (simp add: q_def)
    from quantum_le_abs [OF _ this] x(1) have "2 powr of_int (q + 52) \<le> x" by (simp add: q_def)
    moreover from jq have "2 powr of_int (j + 53) \<le> (2::real) powr of_int (q + 52)"
      by (intro powr_mono) simp_all
    moreover have "of_int m * 2 powr of_int j < (2::real) ^ 53 * 2 powr of_int j"
      using mlt by (rule mult_strict_right_mono) simp
    ultimately show False using x(2) unfolding two_powr_53 by linarith
  qed
  have "x / 2 powr of_int q \<le> of_int m * (2 powr of_int j / 2 powr of_int q)"
    using x(2) by (simp add: divide_right_mono)
  also have "\<dots> = of_int (m * 2 ^ nat (j - q))"
    by (simp add: powr_int_diff [OF qj])
  finally have "round_even (x / 2 powr of_int q) \<le> m * 2 ^ nat (j - q)" by (rule round_even_le)
  then have "real_of_int (round_even (x / 2 powr of_int q)) \<le> of_int (m * 2 ^ nat (j - q))"
    by (simp only: of_int_le_iff)
  then have "real_of_int (round_even (x / 2 powr of_int q)) * 2 powr of_int q
      \<le> of_int (m * 2 ^ nat (j - q)) * 2 powr of_int q"
    by (rule mult_right_mono) simp
  also have "real_of_int (m * 2 ^ nat (j - q)) * 2 powr of_int q
      = of_int m * ((2 powr of_int j / 2 powr of_int q) * 2 powr of_int q)"
    by (simp add: powr_int_diff [OF qj])
  also have "\<dots> = of_int m * 2 powr of_int j" by simp
  finally show ?thesis using x(1) by (simp add: rnd64_def q_def)
qed

lemma rnd64_ge_pos:
  assumes m: "0 < m" "m < 2 ^ 53" and j: "- 1074 \<le> j"
    and x: "of_int m * 2 powr of_int j \<le> x"
  shows "of_int m * 2 powr of_int j \<le> rnd64 x"
proof -
  define q where "q = quantum_exp x"
  have mlt: "real_of_int m < 2 ^ 53"
    using m int_less_2_53 [of m] by simp
  have "0 < real_of_int m * 2 powr of_int j" using m(1) by simp
  with x have x0: "0 < x" by linarith
  have r: "rnd64 x = real_of_int (round_even (x / 2 powr of_int q)) * 2 powr of_int q"
    using x0 by (simp add: rnd64_def q_def)
  show ?thesis
  proof (cases "q \<le> j")
    case True
    have "real_of_int (m * 2 ^ nat (j - q)) = of_int m * (2 powr of_int j / 2 powr of_int q)"
      by (simp add: powr_int_diff [OF True])
    also have "\<dots> \<le> x / 2 powr of_int q"
      using x by (simp add: divide_right_mono)
    finally have "m * 2 ^ nat (j - q) \<le> round_even (x / 2 powr of_int q)" by (rule round_even_ge)
    then have "real_of_int (m * 2 ^ nat (j - q)) \<le> of_int (round_even (x / 2 powr of_int q))"
      by (simp only: of_int_le_iff)
    then have "real_of_int (m * 2 ^ nat (j - q)) * 2 powr of_int q
        \<le> of_int (round_even (x / 2 powr of_int q)) * 2 powr of_int q"
      by (rule mult_right_mono) simp
    moreover have "real_of_int (m * 2 ^ nat (j - q)) * 2 powr of_int q
        = of_int m * ((2 powr of_int j / 2 powr of_int q) * 2 powr of_int q)"
      by (simp add: powr_int_diff [OF True])
    moreover have "\<dots> = of_int m * 2 powr of_int j" by simp
    ultimately show ?thesis by (simp only: r)
  next
    case False
    then have jq: "j < q" by simp
    with j have "- 1074 < quantum_exp x" by (simp add: q_def)
    from quantum_le_abs [OF _ this] x0 have lo: "2 powr of_int (q + 52) \<le> x" by (simp add: q_def)
    have "(2::real) powr of_int (q + 52) = 2 powr (of_int q + real 52)" by simp
    also have "\<dots> = 2 powr of_int q * 2 powr real 52" by (simp only: powr_add)
    also have "(2::real) powr real 52 = 2 ^ 52" by (rule powr_realpow) simp
    finally have split: "(2::real) powr of_int (q + 52) = 2 powr of_int q * 2 ^ 52" .
    from lo [unfolded split] have "2 powr of_int q * 2 ^ 52 \<le> x" .
    then have "(2::real) ^ 52 \<le> x / 2 powr of_int q"
      by (simp add: pos_le_divide_eq mult.commute)
    then have "of_int (2 ^ 52) \<le> x / 2 powr of_int q" by simp
    then have "2 ^ 52 \<le> round_even (x / 2 powr of_int q)" by (rule round_even_ge)
    then have "real_of_int (2 ^ 52) \<le> of_int (round_even (x / 2 powr of_int q))"
      by (simp only: of_int_le_iff)
    then have "real_of_int (2 ^ 52) * 2 powr of_int q
        \<le> of_int (round_even (x / 2 powr of_int q)) * 2 powr of_int q"
      by (rule mult_right_mono) simp
    then have "2 powr of_int q * 2 ^ 52 \<le> rnd64 x"
      by (simp add: r mult.commute)
    then have "2 powr of_int (q + 52) \<le> rnd64 x"
      by (simp only: split)
    moreover from jq have "2 powr of_int (j + 53) \<le> (2::real) powr of_int (q + 52)"
      by (intro powr_mono) simp_all
    moreover have "of_int m * 2 powr of_int j < (2::real) ^ 53 * 2 powr of_int j"
      using mlt by (rule mult_strict_right_mono) simp
    ultimately show ?thesis unfolding two_powr_53 by linarith
  qed
qed

text \<open>In particular it does not cross an integer of at most 53 bits.\<close>

lemma rnd64_le_int:
  assumes "\<bar>n\<bar> < 2 ^ 53" and "x \<le> of_int n"
  shows "rnd64 x \<le> of_int n"
proof -
  consider "0 < n" "0 < x" | "0 < n" "x \<le> 0" | "n = 0" | "n < 0" by linarith
  then show ?thesis
  proof cases
    case 1
    with assms rnd64_le_pos [of n 0 x] show ?thesis by simp
  next
    case 2
    with rnd64_nonpos [of x] show ?thesis by simp
  next
    case 3
    with assms rnd64_nonpos [of x] show ?thesis by simp
  next
    case 4
    with assms have "of_int (- n) * 2 powr of_int 0 \<le> - x" "0 < - n" "- n < 2 ^ 53" by simp_all
    from rnd64_ge_pos [OF this(2,3) _ this(1)] show ?thesis by (simp add: rnd64_minus)
  qed
qed

lemma rnd64_ge_int:
  assumes "\<bar>n\<bar> < 2 ^ 53" and "of_int n \<le> x"
  shows "of_int n \<le> rnd64 x"
  using rnd64_le_int [of "- n" "- x"] assms by (simp add: rnd64_minus)

lemma rnd64_abs_le_int:
  assumes "0 \<le> n" "n < 2 ^ 53" and "\<bar>x\<bar> \<le> of_int n"
  shows "\<bar>rnd64 x\<bar> \<le> of_int n"
  using rnd64_le_int [of n x] rnd64_ge_int [of "- n" x] assms by (simp add: abs_le_iff)

text \<open>Nor the largest finite double: a real within the finite range rounds to a finite double.\<close>

lemma max_f64_form: "max_f64 = of_int (2 ^ 53 - 1) * 2 powr of_int 971"
proof -
  have "(2::real) powr of_int 971 = 2 ^ 971"
    using two_powr_nat [of 971] by simp
  then show ?thesis by (simp add: max_f64_def)
qed

lemma rnd64_abs_le_max:
  assumes "\<bar>x\<bar> \<le> max_f64"
  shows "\<bar>rnd64 x\<bar> \<le> max_f64"
proof -
  have le: "rnd64 y \<le> max_f64" if "y \<le> max_f64" for y
  proof (cases "0 < y")
    case True
    with that rnd64_le_pos [of "2 ^ 53 - 1" 971 y] show ?thesis
      by (simp add: max_f64_form)
  next
    case False
    with rnd64_nonpos [of y] have "rnd64 y \<le> 0" by simp
    moreover have "0 \<le> max_f64" by (simp add: max_f64_def)
    ultimately show ?thesis by linarith
  qed
  from assms le [of x] le [of "- x"] show ?thesis
    by (simp add: rnd64_minus abs_le_iff)
qed

subsection \<open>The form of a double\<close>

text \<open>A fixed point of the rounding has a mantissa of at most 53 bits.\<close>

lemma rnd64_fixed_form:
  assumes "rnd64 a = a"
  shows "\<exists>n j. a = of_int n * 2 powr of_int j \<and> \<bar>n\<bar> < 2 ^ 53 \<and> - 1074 \<le> j"
proof (cases "a = 0")
  case True
  then have "a = of_int 0 * 2 powr of_int 0 \<and> \<bar>0::int\<bar> < 2 ^ 53 \<and> - 1074 \<le> (0::int)" by simp
  then show ?thesis by blast
next
  case False
  define q where "q = quantum_exp a"
  define N where "N = round_even (a / 2 powr of_int q)"
  have a: "a = of_int N * 2 powr of_int q"
    using assms False by (simp add: rnd64_def q_def N_def)
  have q: "- 1074 \<le> q" by (simp add: q_def quantum_exp_ge)
  have "\<bar>a\<bar> < 2 ^ 53 * 2 powr of_int q"
    using abs_less_quantum [OF False] by (simp only: two_powr_53 q_def)
  then have "\<bar>a\<bar> / 2 powr of_int q < 2 ^ 53"
    by (simp add: pos_divide_less_eq)
  moreover have "\<bar>a / 2 powr of_int q\<bar> = \<bar>a\<bar> / 2 powr of_int q" by simp
  ultimately have "\<bar>a / 2 powr of_int q\<bar> < 2 ^ 53" by (simp only:)
  then have "a / 2 powr of_int q \<le> 2 ^ 53" "- (2 ^ 53) \<le> a / 2 powr of_int q"
    by linarith+
  then have "a / 2 powr of_int q \<le> of_int (2 ^ 53)" "of_int (- (2 ^ 53)) \<le> a / 2 powr of_int q"
    by simp_all
  then have N: "N \<le> 2 ^ 53" "- (2 ^ 53) \<le> N"
    unfolding N_def using round_even_le round_even_ge by blast+
  show ?thesis
  proof (cases "\<bar>N\<bar> < 2 ^ 53")
    case True
    with a q show ?thesis by blast
  next
    case False
    with N have "N = 2 ^ 53 \<or> N = - (2 ^ 53)" by linarith
    then have "real_of_int N = 2 * of_int (N div 2)" "\<bar>N div 2\<bar> < 2 ^ 53" by auto
    with a have "a = of_int (N div 2) * 2 powr of_int (q + 1)"
      unfolding two_powr_Suc by simp
    moreover from q have "- 1074 \<le> q + 1" by simp
    ultimately show ?thesis using \<open>\<bar>N div 2\<bar> < 2 ^ 53\<close> by blast
  qed
qed

lemma rnd64_double_sum:
  assumes "rnd64 a = a"
  shows "rnd64 (a + a) = a + a"
proof -
  from rnd64_fixed_form [OF assms] obtain n j where
    a: "a = of_int n * 2 powr of_int j" and n: "\<bar>n\<bar> < 2 ^ 53" and j: "- 1074 \<le> j"
    by blast
  have "a + a = of_int n * 2 powr of_int (j + 1)"
    unfolding two_powr_Suc a by simp
  moreover from j have "- 1074 \<le> j + 1" by simp
  ultimately show ?thesis using rnd64_exact [OF n, of "j + 1"] by simp
qed

text \<open>Every double is a multiple of the smallest subnormal.\<close>

lemma double_multiple:
  assumes "rnd64 a = a"
  shows "\<exists>k. a = of_int k * 2 powr of_int (- 1074)"
proof -
  from rnd64_fixed_form [OF assms] obtain n j where
    a: "a = of_int n * 2 powr of_int j" and j: "- 1074 \<le> j"
    by blast
  have "(2::real) powr of_int j = 2 ^ nat (j + 1074) * 2 powr of_int (- 1074)"
    using powr_int_diff [of "- 1074" j] j by (simp add: field_simps)
  with a have "a = of_int (n * 2 ^ nat (j + 1074)) * 2 powr of_int (- 1074)"
    by simp
  then show ?thesis by blast
qed

text \<open>Gradual underflow: the difference of two distinct doubles does not round to zero.\<close>

lemma rnd64_diff_nonzero:
  assumes "rnd64 a = a" and "rnd64 b = b" and "a \<noteq> b"
  shows "rnd64 (b - a) \<noteq> 0"
proof -
  from double_multiple [OF assms(1)] double_multiple [OF assms(2)] obtain k l where
    a: "a = of_int k * 2 powr of_int (- 1074)" and b: "b = of_int l * 2 powr of_int (- 1074)"
    by blast
  with assms(3) have kl: "k \<noteq> l" by auto
  have d: "b - a = of_int (l - k) * 2 powr of_int (- 1074)"
    by (simp add: a b algebra_simps)
  have pos: "0 < rnd64 x" if "real_of_int 1 * 2 powr of_int (- 1074) \<le> x" for x
  proof -
    from rnd64_ge_pos [of 1 "- 1074" x] that
    have "real_of_int 1 * 2 powr of_int (- 1074) \<le> rnd64 x" by simp
    moreover have "0 < real_of_int 1 * 2 powr of_int (- 1074)" by simp
    ultimately show ?thesis by linarith
  qed
  show ?thesis
  proof (cases "k < l")
    case True
    then have "real_of_int 1 \<le> of_int (l - k)" by simp
    then have "real_of_int 1 * 2 powr of_int (- 1074) \<le> b - a"
      unfolding d by (rule mult_right_mono) simp
    from pos [OF this] show ?thesis by simp
  next
    case False
    with kl have "real_of_int 1 \<le> of_int (k - l)" by simp
    then have "real_of_int 1 * 2 powr of_int (- 1074) \<le> of_int (k - l) * 2 powr of_int (- 1074)"
      by (rule mult_right_mono) simp
    also have "\<dots> = - (b - a)" by (simp add: d algebra_simps)
    finally have "0 < rnd64 (- (b - a))" by (rule pos)
    then have "0 < - rnd64 (b - a)" by (simp only: rnd64_minus)
    then show ?thesis by simp
  qed
qed

section \<open>Binary64 operations\<close>

lemma bind_err_Inr [simp]: "bind_err (Inr v) f = f v"
  by (simp add: bind_err_def)

lemma bind_err_Inl [simp]: "bind_err (Inl e) f = Inl e"
  by (simp add: bind_err_def)

lemma bind_err_eq_Inr: "bind_err m f = Inr r \<longleftrightarrow> (\<exists>v. m = Inr v \<and> f v = Inr r)"
  by (cases m) simp_all

lemma bind_err_eq_Inl: "bind_err m f = Inl e \<longleftrightarrow> m = Inl e \<or> (\<exists>v. m = Inr v \<and> f v = Inl e)"
  by (cases m) simp_all

subsection \<open>Finite results\<close>

lemma max_f64_pos: "2 ^ 53 \<le> max_f64"
  by (simp add: max_f64_def)

lemma round_fin_finite: "\<bar>r\<bar> \<le> max_f64 \<Longrightarrow> round_fin r = Fin (rnd64 r)"
  using rnd64_abs_le_max [of r] by (simp add: round_fin_def Let_def abs_le_iff)

lemma round_fin_double: "is_double r \<Longrightarrow> round_fin r = Fin r"
  by (simp add: is_double_def round_fin_finite)

lemma round_fin_0 [simp]: "round_fin 0 = Fin 0"
  using max_f64_pos by (simp add: round_fin_finite)

lemma is_double_int: "\<bar>n\<bar> < 2 ^ 53 \<Longrightarrow> is_double (of_int n)"
proof -
  assume n: "\<bar>n\<bar> < 2 ^ 53"
  then have "\<bar>real_of_int n\<bar> < 2 ^ 53" using int_less_2_53 [of n] by simp
  with max_f64_pos have "\<bar>real_of_int n\<bar> \<le> max_f64" by linarith
  with n show ?thesis by (simp add: is_double_def rnd64_int)
qed

lemma round_fin_numeral [simp]:
  "(numeral w :: int) < 2 ^ 53 \<Longrightarrow> round_fin (numeral w) = Fin (numeral w)"
  using is_double_int [of "numeral w"] by (simp add: round_fin_double)

lemma round_fin_neg_numeral [simp]:
  "(numeral w :: int) < 2 ^ 53 \<Longrightarrow> round_fin (- numeral w) = Fin (- numeral w)"
  using is_double_int [of "- numeral w"] by (simp add: round_fin_double)

lemma round_fin_1 [simp]: "round_fin 1 = Fin 1"
  using is_double_int [of 1] by (simp add: round_fin_double)

lemma round_fin_neg_1 [simp]: "round_fin (- 1) = Fin (- 1)"
  using is_double_int [of "- 1"] by (simp add: round_fin_double)

text \<open>A real of magnitude at most \<open>n\<close> rounds to a finite double of magnitude at most \<open>n\<close>.\<close>

lemma round_fin_within:
  assumes "0 \<le> n" "n < 2 ^ 53" and "\<bar>r\<bar> \<le> of_int n"
  shows "\<exists>v. round_fin r = Fin v \<and> \<bar>v\<bar> \<le> of_int n"
proof -
  from assms(2) have "real_of_int n < 2 ^ 53"
    using int_less_2_53 [of n] assms(1) by simp
  with assms(3) max_f64_pos have "\<bar>r\<bar> \<le> max_f64" by linarith
  then have "round_fin r = Fin (rnd64 r)" by (rule round_fin_finite)
  with rnd64_abs_le_int [OF assms] show ?thesis by blast
qed

lemma round_fin_between:
  assumes "\<bar>lo\<bar> < 2 ^ 53" "\<bar>hi\<bar> < 2 ^ 53" and "of_int lo \<le> r" "r \<le> of_int hi"
  shows "\<exists>v. round_fin r = Fin v \<and> of_int lo \<le> v \<and> v \<le> of_int hi"
proof -
  from assms(1,2) have "\<bar>real_of_int lo\<bar> < 2 ^ 53" "\<bar>real_of_int hi\<bar> < 2 ^ 53"
    using int_less_2_53 [of lo] int_less_2_53 [of hi] by simp_all
  with assms(3,4) max_f64_pos have "\<bar>r\<bar> \<le> max_f64" by linarith
  then have "round_fin r = Fin (rnd64 r)" by (rule round_fin_finite)
  with rnd64_le_int [OF assms(2,4)] rnd64_ge_int [OF assms(1,3)] show ?thesis by blast
qed

subsection \<open>Division\<close>

text \<open>The only exception of a division is \<open>ZeroDivisionError\<close>, on a zero divisor.\<close>

lemma fdiv_eq_Inl: "fdiv u v = Inl e \<longleftrightarrow> v = Fin 0 \<and> e = ZeroDivisionError"
  by (cases u; cases v) auto

lemma fdiv_total: "v \<noteq> Fin 0 \<Longrightarrow> \<exists>w. fdiv u v = Inr w"
  using fdiv_eq_Inl [of u v] by (cases "fdiv u v") auto

lemma fdiv_const: "b \<noteq> 0 \<Longrightarrow> \<exists>w. fdiv u (float_of_int b) = Inr w"
  by (rule fdiv_total) (simp add: float_of_int_def)

lemma fdiv_NaN [simp]: "fdiv NaN (float_of_int 2) = Inr NaN"
  by (simp add: float_of_int_def)

subsection \<open>NaN or bounded\<close>

lemma nan_or_within_NaN [simp]: "nan_or_within n NaN"
  by (simp add: nan_or_within_def)

lemma nan_or_within_Fin [simp]: "nan_or_within n (Fin a) \<longleftrightarrow> \<bar>a\<bar> \<le> of_int n"
  by (simp add: nan_or_within_def)

lemma nan_or_within_cases:
  assumes "nan_or_within n v"
  obtains "v = NaN" | a where "v = Fin a" "\<bar>a\<bar> \<le> of_int n"
  using assms by (cases v) (auto simp: nan_or_within_def)

lemma nan_or_within_round:
  assumes "0 \<le> n" "n < 2 ^ 53" "\<bar>r\<bar> \<le> of_int n"
  shows "nan_or_within n (round_fin r)"
  using round_fin_within [OF assms] by auto

lemma fmul_within:
  assumes u: "nan_or_within m u" and v: "nan_or_within n v"
    and m: "0 \<le> m" and n: "0 \<le> n" and mn: "m * n < 2 ^ 53"
  shows "nan_or_within (m * n) (fmul u v)"
proof -
  from u show ?thesis
  proof (cases rule: nan_or_within_cases)
    case 1
    then show ?thesis by simp
  next
    case (2 a)
    from v show ?thesis
    proof (cases rule: nan_or_within_cases)
      case 1
      with 2 show ?thesis by simp
    next
      case b: (2 b)
      have "\<bar>a * b\<bar> \<le> of_int m * of_int n"
        unfolding abs_mult using 2(2) b(2) by (intro mult_mono) simp_all
      then have "\<bar>a * b\<bar> \<le> of_int (m * n)" by simp
      with m n mn have "nan_or_within (m * n) (round_fin (a * b))"
        by (intro nan_or_within_round) simp_all
      with 2 b show ?thesis by simp
    qed
  qed
qed

lemma fneg_within: "nan_or_within n v \<Longrightarrow> nan_or_within n (fneg v)"
  by (cases v) (simp_all add: nan_or_within_def)

lemma fadd_within:
  assumes u: "nan_or_within m u" and v: "nan_or_within n v"
    and m: "0 \<le> m" and n: "0 \<le> n" and mn: "m + n < 2 ^ 53"
  shows "nan_or_within (m + n) (fadd u v)"
proof -
  from u show ?thesis
  proof (cases rule: nan_or_within_cases)
    case 1
    then show ?thesis by simp
  next
    case (2 a)
    from v show ?thesis
    proof (cases rule: nan_or_within_cases)
      case 1
      with 2 show ?thesis by simp
    next
      case b: (2 b)
      from 2(2) b(2) have "\<bar>a + b\<bar> \<le> of_int (m + n)" by simp
      with m n mn have "nan_or_within (m + n) (round_fin (a + b))"
        by (intro nan_or_within_round) simp_all
      with 2 b show ?thesis by simp
    qed
  qed
qed

lemma fsub_within:
  assumes "nan_or_within m u" "nan_or_within n v" "0 \<le> m" "0 \<le> n" "m + n < 2 ^ 53"
  shows "nan_or_within (m + n) (fsub u v)"
  unfolding fsub_def using assms by (intro fadd_within fneg_within)

text \<open>On finite operands within the bounds the result is finite.\<close>

lemma nan_or_within_finite: "nan_or_within n v \<Longrightarrow> v \<noteq> NaN \<Longrightarrow> \<exists>a. v = Fin a \<and> \<bar>a\<bar> \<le> of_int n"
  by (cases v) (simp_all add: nan_or_within_def)

lemma fmul_Fin_not_NaN:
  "\<bar>a * b\<bar> \<le> max_f64 \<Longrightarrow> fmul (Fin a) (Fin b) = Fin (rnd64 (a * b))"
  by (simp add: round_fin_finite)

section \<open>Basic facts\<close>

lemma py_min_total: "xs \<noteq> [] \<Longrightarrow> \<exists>m. py_min xs = Inr m"
  by (cases xs) simp_all

lemma py_max_total: "xs \<noteq> [] \<Longrightarrow> \<exists>m. py_max xs = Inr m"
  by (cases xs) simp_all

lemma map_err_total:
  "\<forall>v\<in>set vs. \<exists>r. f v = Inr r \<Longrightarrow> \<exists>rs. map_err f vs = Inr rs \<and> length rs = length vs"
proof (induction vs)
  case Nil
  then show ?case by simp
next
  case (Cons v vs)
  then obtain r rs where "f v = Inr r" "map_err f vs = Inr rs" "length rs = length vs"
    by auto
  then show ?case by simp
qed

lemma length_4_list: "length pts = 4 \<Longrightarrow> \<exists>c0 c1 c2 c3. pts = [c0, c1, c2, c3]"
  by (cases pts; simp; rename_tac a as; case_tac as; simp; rename_tac b bs; case_tac bs; simp;
      rename_tac c cs; case_tac cs; simp)

lemma less_4_cases: "k < (4::nat) \<Longrightarrow> k = 0 \<or> k = 1 \<or> k = 2 \<or> k = 3"
  by arith

section \<open>Calibration state machine\<close>

subsection \<open>Single triggers\<close>

lemma capture_next:
  "calibrating st \<Longrightarrow> calib_step st < 3 \<Longrightarrow> handle_event p st (KEYDOWN K_SPACE) =
     Inr (st\<lparr>calib_points := calib_points st @ [(pose_yaw p, pose_pitch p)],
             calib_step := calib_step st + 1\<rparr>)"
  by (simp add: Let_def)

lemma capture_last:
  assumes "calibrating st" and "3 \<le> calib_step st"
  shows "\<exists>st'. handle_event p st (KEYDOWN K_SPACE) = Inr st'
           \<and> \<not> calibrating st'
           \<and> calib_points st' = calib_points st @ [(pose_yaw p, pose_pitch p)]
           \<and> calib_step st' = calib_step st + 1"
proof -
  let ?pts = "calib_points st @ [(pose_yaw p, pose_pitch p)]"
  obtain mny mxy mnp mxp where
    "py_min (map fst ?pts) = Inr mny" "py_max (map fst ?pts) = Inr mxy"
    "py_min (map snd ?pts) = Inr mnp" "py_max (map snd ?pts) = Inr mxp"
    using py_min_total [of "map fst ?pts"] py_max_total [of "map fst ?pts"]
      py_min_total [of "map snd ?pts"] py_max_total [of "map snd ?pts"]
    by auto
  with assms show ?thesis by (simp add: Let_def)
qed

lemma capture_idle: "\<not> calibrating st \<Longrightarrow> handle_event p st (KEYDOWN K_SPACE) = Inr st"
  by simp

text \<open>No trigger makes the event handler raise.\<close>

lemma handle_event_total: "\<exists>st'. handle_event p st ev = Inr st'"
proof (cases ev)
  case (KEYDOWN k)
  show ?thesis
  proof (cases k)
    case K_SPACE
    consider "\<not> calibrating st" | "calibrating st" "calib_step st < 3"
      | "calibrating st" "3 \<le> calib_step st"
      by linarith
    then show ?thesis
    proof cases
      case 1
      then show ?thesis by (simp add: KEYDOWN K_SPACE)
    next
      case 2
      then show ?thesis by (simp add: KEYDOWN K_SPACE capture_next del: handle_event.simps(3))
    next
      case 3
      with capture_last [of st p] show ?thesis by (auto simp: KEYDOWN K_SPACE)
    qed
  qed (simp_all add: KEYDOWN)
qed simp_all

lemma handle_event_inv:
  assumes "calib_inv st" and "handle_event p st ev = Inr st'"
  shows "calib_inv st'"
proof (cases "ev = KEYDOWN K_SPACE")
  case False
  with assms show ?thesis
    by (cases "(p, st, ev)" rule: handle_event.cases) (auto simp: calib_inv_def)
next
  case True
  consider "\<not> calibrating st" | "calibrating st" "calib_step st < 3"
    | "calibrating st" "3 \<le> calib_step st"
    by linarith
  then show ?thesis
  proof cases
    case 1
    with assms True show ?thesis by simp
  next
    case 2
    with assms True show ?thesis
      by (auto simp: capture_next calib_inv_def simp del: handle_event.simps(3))
  next
    case 3
    with capture_last [of st p] assms True show ?thesis
      by (auto simp: calib_inv_def simp del: handle_event.simps(3))
  qed
qed

subsection \<open>Runs of triggers\<close>

lemma handle_events_total_inv:
  "calib_inv st \<Longrightarrow> \<exists>st'. handle_events st evs = Inr st' \<and> calib_inv st'"
proof (induction evs arbitrary: st)
  case Nil
  then show ?case by simp
next
  case (Cons pe evs)
  obtain p ev where pe: "pe = (p, ev)" by (cases pe)
  obtain st1 where st1: "handle_event p st ev = Inr st1"
    using handle_event_total by blast
  with Cons.prems have "calib_inv st1" by (rule handle_event_inv)
  from Cons.IH [OF this] show ?case by (simp add: pe st1)
qed

lemma captures_idle:
  "\<not> calibrating st \<Longrightarrow> handle_events st (map (\<lambda>p. (p, KEYDOWN K_SPACE)) ps) = Inr st"
  by (induction ps) simp_all

lemma idle_without_restart:
  "\<forall>pe\<in>set evs. snd pe \<noteq> KEYDOWN K_c \<Longrightarrow> \<not> calibrating st \<Longrightarrow>
   \<exists>st'. handle_events st evs = Inr st' \<and> calib_points st' = calib_points st \<and> \<not> calibrating st'"
proof (induction evs arbitrary: st)
  case Nil
  then show ?case by simp
next
  case (Cons pe evs)
  obtain p ev where pe: "pe = (p, ev)" by (cases pe)
  from Cons.prems pe have "ev \<noteq> KEYDOWN K_c" by simp
  then obtain st1 where st1: "handle_event p st ev = Inr st1"
      "calib_points st1 = calib_points st" "\<not> calibrating st1"
    using Cons.prems(2)
    by (cases "(p, st, ev)" rule: handle_event.cases) simp_all
  from Cons.prems(1) have "\<forall>pe\<in>set evs. snd pe \<noteq> KEYDOWN K_c" by simp
  from Cons.IH [OF this st1(3)] show ?case by (simp add: pe st1)
qed

lemma calibrating_without_restart:
  "\<forall>pe\<in>set evs. snd pe \<noteq> KEYDOWN K_c \<Longrightarrow> calibrating st \<Longrightarrow>
   calib_step st = length (calib_points st) \<Longrightarrow> length (calib_points st) < 4 \<Longrightarrow>
   \<exists>st'. handle_events st evs = Inr st'
        \<and> calib_points st' = take 4 (calib_points st @ captures evs)
        \<and> (calibrating st' \<longleftrightarrow> length (calib_points st @ captures evs) < 4)"
proof (induction evs arbitrary: st)
  case Nil
  then show ?case by (simp add: captures_def)
next
  case (Cons pe evs)
  obtain p ev where pe: "pe = (p, ev)" by (cases pe)
  from Cons.prems(1) have rest: "\<forall>pe\<in>set evs. snd pe \<noteq> KEYDOWN K_c" by simp
  from Cons.prems pe have nc: "ev \<noteq> KEYDOWN K_c" by simp
  show ?case
  proof (cases "ev = KEYDOWN K_SPACE")
    case False
    with nc obtain st1 where st1: "handle_event p st ev = Inr st1"
        "calib_points st1 = calib_points st" "calibrating st1" "calib_step st1 = calib_step st"
      using Cons.prems(2)
      by (cases "(p, st, ev)" rule: handle_event.cases) simp_all
    from False have "captures (pe # evs) = captures evs" by (simp add: captures_def pe)
    moreover from Cons.IH [OF rest, of st1] st1 Cons.prems
    have "\<exists>st'. handle_events st1 evs = Inr st'
        \<and> calib_points st' = take 4 (calib_points st @ captures evs)
        \<and> (calibrating st' \<longleftrightarrow> length (calib_points st @ captures evs) < 4)"
      by simp
    ultimately show ?thesis by (simp add: pe st1)
  next
    case True
    let ?pts = "calib_points st @ [(pose_yaw p, pose_pitch p)]"
    let ?st2 = "st\<lparr>calib_points := ?pts, calib_step := calib_step st + 1\<rparr>"
    have caps: "calib_points st @ captures (pe # evs) = ?pts @ captures evs"
      by (simp add: captures_def pe True)
    show ?thesis
    proof (cases "calib_step st \<ge> 3")
      case False
      then have st1: "handle_event p st ev = Inr ?st2"
        using Cons.prems(2) by (simp add: True capture_next del: handle_event.simps(3))
      from False Cons.prems have "\<exists>st'. handle_events ?st2 evs = Inr st'
        \<and> calib_points st' = take 4 (calib_points ?st2 @ captures evs)
        \<and> (calibrating st' \<longleftrightarrow> length (calib_points ?st2 @ captures evs) < 4)"
        by (intro Cons.IH [OF rest]) simp_all
      then obtain st' where st': "handle_events ?st2 evs = Inr st'"
          "calib_points st' = take 4 (?pts @ captures evs)"
          "calibrating st' \<longleftrightarrow> length (?pts @ captures evs) < 4"
        by auto
      have "handle_events st (pe # evs) = Inr st'"
        using st'(1) by (simp add: pe st1 del: handle_event.simps(3))
      with st'(2,3) show ?thesis unfolding caps by blast
    next
      case full: True
      with capture_last [of st p] Cons.prems(2) obtain st1 where
        st1: "handle_event p st ev = Inr st1" "\<not> calibrating st1" "calib_points st1 = ?pts"
        by (auto simp: True)
      from idle_without_restart [OF rest st1(2)]
      obtain st' where st': "handle_events st1 evs = Inr st'"
         "calib_points st' = ?pts" "\<not> calibrating st'"
        by (auto simp: st1(3))
      from full Cons.prems have "length ?pts = 4" by simp
      then have "take 4 (?pts @ captures evs) = ?pts" "\<not> length (?pts @ captures evs) < 4"
        by simp_all
      moreover have "handle_events st (pe # evs) = Inr st'"
        using st'(1) by (simp add: pe st1(1) del: handle_event.simps(3))
      ultimately show ?thesis unfolding caps using st'(2,3) by simp
    qed
  qed
qed

subsection \<open>The calibration cycle\<close>

text \<open>
  Claim C1. From an idle state, whatever samples it holds, a start trigger followed by
  exactly four capture triggers ends idle with one table of four samples: the
  \<open>(yaw, pitch)\<close> of the pose that is live at each capture, in the order of the captures;
  any further captures leave that state as it is. After the start trigger and \<open>k < 4\<close>
  captures the machine is calibrating at step \<open>k\<close>, holds the first \<open>k\<close> samples and
  prompts for \<open>steps[k]\<close>, so the samples are taken at Top-Left, Top-Right, Bottom-Right,
  Bottom-Left in this order. After any run of triggers whatever nothing was raised and,
  while the machine is calibrating, the number of stored samples is the step.
\<close>

theorem calibration_cycle:
  assumes idle: "\<not> calibrating s"
  shows "(\<exists>s4. handle_events s [(ps, KEYDOWN K_c), (pa, KEYDOWN K_SPACE), (pb, KEYDOWN K_SPACE),
                                 (pc, KEYDOWN K_SPACE), (pd, KEYDOWN K_SPACE)] = Inr s4
            \<and> \<not> calibrating s4
            \<and> calib_points s4 = [(pose_yaw pa, pose_pitch pa), (pose_yaw pb, pose_pitch pb),
                                 (pose_yaw pc, pose_pitch pc), (pose_yaw pd, pose_pitch pd)]
            \<and> (\<forall>qs. handle_events s4 (map (\<lambda>q. (q, KEYDOWN K_SPACE)) qs) = Inr s4))
       \<and> (\<forall>k<4. \<exists>sk c.
              handle_events s (take (Suc k) [(ps, KEYDOWN K_c), (pa, KEYDOWN K_SPACE),
                 (pb, KEYDOWN K_SPACE), (pc, KEYDOWN K_SPACE), (pd, KEYDOWN K_SPACE)]) = Inr sk
            \<and> calibrating sk \<and> calib_step sk = k
            \<and> calib_points sk = take k [(pose_yaw pa, pose_pitch pa), (pose_yaw pb, pose_pitch pb),
                                        (pose_yaw pc, pose_pitch pc), (pose_yaw pd, pose_pitch pd)]
            \<and> calibration_prompt sk = Inr (Some (steps ! k, c)))
       \<and> (\<forall>evs. \<exists>s'. handle_events s evs = Inr s'
            \<and> (calibrating s' \<longrightarrow> length (calib_points s') = calib_step s'))"
proof (intro conjI allI impI)
  let ?run = "[(ps, KEYDOWN K_c), (pa, KEYDOWN K_SPACE), (pb, KEYDOWN K_SPACE),
               (pc, KEYDOWN K_SPACE), (pd, KEYDOWN K_SPACE)]"
  let ?table = "[(pose_yaw pa, pose_pitch pa), (pose_yaw pb, pose_pitch pb),
                 (pose_yaw pc, pose_pitch pc), (pose_yaw pd, pose_pitch pd)]"
  obtain s4 where s4: "handle_events s ?run = Inr s4" "\<not> calibrating s4"
      "calib_points s4 = ?table"
    by simp
  then show "\<exists>s4. handle_events s ?run = Inr s4 \<and> \<not> calibrating s4 \<and> calib_points s4 = ?table
            \<and> (\<forall>qs. handle_events s4 (map (\<lambda>q. (q, KEYDOWN K_SPACE)) qs) = Inr s4)"
    using captures_idle by blast
  fix k :: nat
  assume "k < 4"
  then consider "k = 0" | "k = 1" | "k = 2" | "k = 3"
    using less_4_cases by blast
  then show "\<exists>sk c. handle_events s (take (Suc k) ?run) = Inr sk \<and> calibrating sk
            \<and> calib_step sk = k \<and> calib_points sk = take k ?table
            \<and> calibration_prompt sk = Inr (Some (steps ! k, c))"
    by cases (simp_all add: calibration_prompt_def steps_def py_index_def)
next
  fix evs
  have "calib_inv s" using idle by (simp add: calib_inv_def)
  from handle_events_total_inv [OF this, of evs]
  show "\<exists>s'. handle_events s evs = Inr s'
            \<and> (calibrating s' \<longrightarrow> length (calib_points s') = calib_step s')"
    by (auto simp: calib_inv_def)
qed

text \<open>
  C1 at the initial state of \<open>main\<close>: a cycle over four corners, followed by a fifth
  capture, which changes nothing.
\<close>

theorem calibration_cycle_witness:
  "\<not> calibrating initial_state
   \<and> (\<exists>s4. handle_events initial_state
         [(\<lparr>pose_x = Fin 1, pose_y = Fin 2, pose_z = Fin 3, pose_yaw = Fin 0, pose_pitch = Fin 0, pose_roll = Fin 0\<rparr>, KEYDOWN K_c),
          (\<lparr>pose_x = Fin 1, pose_y = Fin 2, pose_z = Fin 3, pose_yaw = Fin (- 20), pose_pitch = Fin (- 15), pose_roll = Fin 0\<rparr>, KEYDOWN K_SPACE),
          (\<lparr>pose_x = Fin 1, pose_y = Fin 2, pose_z = Fin 3, pose_yaw = Fin 20, pose_pitch = Fin (- 15), pose_roll = Fin 0\<rparr>, KEYDOWN K_SPACE),
          (\<lparr>pose_x = Fin 1, pose_y = Fin 2, pose_z = Fin 3, pose_yaw = Fin 20, pose_pitch = Fin 15, pose_roll = Fin 0\<rparr>, KEYDOWN K_SPACE),
          (\<lparr>pose_x = Fin 1, pose_y = Fin 2, pose_z = Fin 3, pose_yaw = Fin (- 20), pose_pitch = Fin 15, pose_roll = Fin 0\<rparr>, KEYDOWN K_SPACE)]
          = Inr s4
        \<and> \<not> calibrating s4
        \<and> calib_points s4 = [(Fin (- 20), Fin (- 15)), (Fin 20, Fin (- 15)), (Fin 20, Fin 15), (Fin (- 20), Fin 15)]
        \<and> handle_events s4
            [(\<lparr>pose_x = Fin 1, pose_y = Fin 2, pose_z = Fin 3, pose_yaw = Fin 7, pose_pitch = Fin 7, pose_roll = Fin 0\<rparr>, KEYDOWN K_SPACE)]
          = Inr s4)"
proof -
  have idle: "\<not> calibrating initial_state" by (simp add: initial_state_def)
  from calibration_cycle [OF idle,
     of "\<lparr>pose_x = Fin 1, pose_y = Fin 2, pose_z = Fin 3, pose_yaw = Fin 0, pose_pitch = Fin 0, pose_roll = Fin 0\<rparr>"
        "\<lparr>pose_x = Fin 1, pose_y = Fin 2, pose_z = Fin 3, pose_yaw = Fin (- 20), pose_pitch = Fin (- 15), pose_roll = Fin 0\<rparr>"
        "\<lparr>pose_x = Fin 1, pose_y = Fin 2, pose_z = Fin 3, pose_yaw = Fin 20, pose_pitch = Fin (- 15), pose_roll = Fin 0\<rparr>"
        "\<lparr>pose_x = Fin 1, pose_y = Fin 2, pose_z = Fin 3, pose_yaw = Fin 20, pose_pitch = Fin 15, pose_roll = Fin 0\<rparr>"
        "\<lparr>pose_x = Fin 1, pose_y = Fin 2, pose_z = Fin 3, pose_yaw = Fin (- 20), pose_pitch = Fin 15, pose_roll = Fin 0\<rparr>"]
  obtain s4 where s4: "handle_events initial_state
         [(\<lparr>pose_x = Fin 1, pose_y = Fin 2, pose_z = Fin 3, pose_yaw = Fin 0, pose_pitch = Fin 0, pose_roll = Fin 0\<rparr>, KEYDOWN K_c),
          (\<lparr>pose_x = Fin 1, pose_y = Fin 2, pose_z = Fin 3, pose_yaw = Fin (- 20), pose_pitch = Fin (- 15), pose_roll = Fin 0\<rparr>, KEYDOWN K_SPACE),
          (\<lparr>pose_x = Fin 1, pose_y = Fin 2, pose_z = Fin 3, pose_yaw = Fin 20, pose_pitch = Fin (- 15), pose_roll = Fin 0\<rparr>, KEYDOWN K_SPACE),
          (\<lparr>pose_x = Fin 1, pose_y = Fin 2, pose_z = Fin 3, pose_yaw = Fin 20, pose_pitch = Fin 15, pose_roll = Fin 0\<rparr>, KEYDOWN K_SPACE),
          (\<lparr>pose_x = Fin 1, pose_y = Fin 2, pose_z = Fin 3, pose_yaw = Fin (- 20), pose_pitch = Fin 15, pose_roll = Fin 0\<rparr>, KEYDOWN K_SPACE)]
          = Inr s4"
      "\<not> calibrating s4"
      "calib_points s4 = [(Fin (- 20), Fin (- 15)), (Fin 20, Fin (- 15)), (Fin 20, Fin 15), (Fin (- 20), Fin 15)]"
      "\<forall>qs. handle_events s4 (map (\<lambda>q. (q, KEYDOWN K_SPACE)) qs) = Inr s4"
    by auto
  from s4(4) [rule_format,
     of "[\<lparr>pose_x = Fin 1, pose_y = Fin 2, pose_z = Fin 3, pose_yaw = Fin 7, pose_pitch = Fin 7, pose_roll = Fin 0\<rparr>]"]
  have "handle_events s4
            [(\<lparr>pose_x = Fin 1, pose_y = Fin 2, pose_z = Fin 3, pose_yaw = Fin 7, pose_pitch = Fin 7, pose_roll = Fin 0\<rparr>, KEYDOWN K_SPACE)]
          = Inr s4"
    by simp
  with idle s4(1,2,3) show ?thesis by blast
qed

subsection \<open>Restarting a cycle\<close>

text \<open>
  Claim C7. A start trigger in any state, in particular while calibrating with one to
  three samples stored, gives a calibrating state at step 0 with no samples. In the run
  that follows, as long as there is no further start trigger, the table consists of the
  first four samples captured after the restart and of nothing else, the cycle is
  complete exactly when four captures have occurred, and a completed table has exactly
  four samples.
\<close>

theorem restart_discards_partial:
  assumes "\<forall>pe\<in>set evs. snd pe \<noteq> KEYDOWN K_c"
  shows "\<exists>s0 s'. handle_event p s (KEYDOWN K_c) = Inr s0
           \<and> calibrating s0 \<and> calib_step s0 = 0 \<and> calib_points s0 = []
           \<and> handle_events s ((p, KEYDOWN K_c) # evs) = Inr s'
           \<and> calib_points s' = take 4 (captures evs)
           \<and> (calibrating s' \<longleftrightarrow> length (captures evs) < 4)
           \<and> (\<not> calibrating s' \<longrightarrow> length (calib_points s') = 4)"
proof -
  let ?s0 = "s\<lparr>calibrating := True, calib_step := 0, calib_points := []\<rparr>"
  from calibrating_without_restart [OF assms, of ?s0]
  obtain s' where "handle_events ?s0 evs = Inr s'"
     "calib_points s' = take 4 (captures evs)"
     "calibrating s' \<longleftrightarrow> length (captures evs) < 4"
    by auto
  then show ?thesis by auto
qed

text \<open>
  C7 at a state that is calibrating with two samples stored: the restart, then four
  captures with another event between them.
\<close>

theorem restart_discards_partial_witness:
  "\<exists>s'. handle_events
         \<lparr>running = True, calibrating = True, calib_step = 2, calib_points = [(Fin 1, Fin 1), (Fin 2, Fin 2)],
          min_yaw = Fin (- 20), max_yaw = Fin 20, min_pitch = Fin (- 20), max_pitch = Fin 20\<rparr>
         [(\<lparr>pose_x = Fin 0, pose_y = Fin 0, pose_z = Fin 0, pose_yaw = Fin 3, pose_pitch = Fin 3, pose_roll = Fin 0\<rparr>, KEYDOWN K_c),
          (\<lparr>pose_x = Fin 0, pose_y = Fin 0, pose_z = Fin 0, pose_yaw = Fin (- 10), pose_pitch = Fin (- 5), pose_roll = Fin 0\<rparr>, KEYDOWN K_SPACE),
          (\<lparr>pose_x = Fin 0, pose_y = Fin 0, pose_z = Fin 0, pose_yaw = Fin 10, pose_pitch = Fin (- 5), pose_roll = Fin 0\<rparr>, KEYDOWN K_SPACE),
          (\<lparr>pose_x = Fin 0, pose_y = Fin 0, pose_z = Fin 0, pose_yaw = Fin 10, pose_pitch = Fin (- 5), pose_roll = Fin 0\<rparr>, OTHER),
          (\<lparr>pose_x = Fin 0, pose_y = Fin 0, pose_z = Fin 0, pose_yaw = Fin 10, pose_pitch = Fin 5, pose_roll = Fin 0\<rparr>, KEYDOWN K_SPACE),
          (\<lparr>pose_x = Fin 0, pose_y = Fin 0, pose_z = Fin 0, pose_yaw = Fin (- 10), pose_pitch = Fin 5, pose_roll = Fin 0\<rparr>, KEYDOWN K_SPACE)]
         = Inr s'
       \<and> calib_points s' = [(Fin (- 10), Fin (- 5)), (Fin 10, Fin (- 5)), (Fin 10, Fin 5), (Fin (- 10), Fin 5)]
       \<and> \<not> calibrating s'"
  using restart_discards_partial
    [of "[(\<lparr>pose_x = Fin 0, pose_y = Fin 0, pose_z = Fin 0, pose_yaw = Fin (- 10), pose_pitch = Fin (- 5), pose_roll = Fin 0\<rparr>, KEYDOWN K_SPACE),
          (\<lparr>pose_x = Fin 0, pose_y = Fin 0, pose_z = Fin 0, pose_yaw = Fin 10, pose_pitch = Fin (- 5), pose_roll = Fin 0\<rparr>, KEYDOWN K_SPACE),
          (\<lparr>pose_x = Fin 0, pose_y = Fin 0, pose_z = Fin 0, pose_yaw = Fin 10, pose_pitch = Fin (- 5), pose_roll = Fin 0\<rparr>, OTHER),
          (\<lparr>pose_x = Fin 0, pose_y = Fin 0, pose_z = Fin 0, pose_yaw = Fin 10, pose_pitch = Fin 5, pose_roll = Fin 0\<rparr>, KEYDOWN K_SPACE),
          (\<lparr>pose_x = Fin 0, pose_y = Fin 0, pose_z = Fin 0, pose_yaw = Fin (- 10), pose_pitch = Fin 5, pose_roll = Fin 0\<rparr>, KEYDOWN K_SPACE)]"
        "\<lparr>pose_x = Fin 0, pose_y = Fin 0, pose_z = Fin 0, pose_yaw = Fin 3, pose_pitch = Fin 3, pose_roll = Fin 0\<rparr>"
        "\<lparr>running = True, calibrating = True, calib_step = 2, calib_points = [(Fin 1, Fin 1), (Fin 2, Fin 2)],
          min_yaw = Fin (- 20), max_yaw = Fin 20, min_pitch = Fin (- 20), max_pitch = Fin 20\<rparr>"]
  by (simp add: captures_def)

section \<open>3D helpers on real numbers\<close>

subsection \<open>Rotation\<close>

lemma radians_0 [simp]: "radians 0 = 0"
  by (simp add: radians_def)

lemma radians_90 [simp]: "radians 90 = pi / 2"
  by (simp add: radians_def)

lemma rotate_point_spec: "Rotate v pitch yaw roll = spec_rotate v pitch yaw roll"
  by (cases v)
     (simp add: Rotate_def rotate_point_def spec_rotate_def spec_roll_step_def
        spec_pitch_step_def spec_yaw_step_def planar_rotation_def Let_def)

lemma Rotate_yaw_only: "Rotate v 0 yaw 0 = spec_yaw_step yaw v"
  by (cases v)
     (simp add: Rotate_def rotate_point_def spec_yaw_step_def planar_rotation_def Let_def)

lemma Rotate_pitch_only: "Rotate v pitch 0 0 = spec_pitch_step pitch v"
  by (cases v)
     (simp add: Rotate_def rotate_point_def spec_pitch_step_def planar_rotation_def Let_def)

lemma Rotate_roll_only: "Rotate v 0 0 roll = spec_roll_step roll v"
  by (cases v)
     (simp add: Rotate_def rotate_point_def spec_roll_step_def planar_rotation_def Let_def)

text \<open>
  C6 as it is worded puts the pitch-only rotation innermost. On the point \<open>(1, 0, 0)\<close>
  with pitch 90, yaw 90 and roll 0 that nesting gives \<open>(0, 0, 1)\<close>, while
  \<open>rotate_point\<close> gives \<open>(0, - 1, 0)\<close>.
\<close>

theorem rotate_order_counterexample:
  "Rotate (Rotate (Rotate (1, 0, 0) 90 0 0) 0 90 0) 0 0 0 = (0, 0, 1) \<and>
   Rotate (1, 0, 0) 90 90 0 = (0, - 1, 0) \<and>
   Rotate (Rotate (Rotate (1, 0, 0) 90 0 0) 0 90 0) 0 0 0 \<noteq> Rotate (1, 0, 0) 90 90 0"
  by (simp add: Rotate_def rotate_point_def Let_def)

text \<open>
  Claim C6, amended. \<open>rotate_point\<close> is the composition of three planar rotations by the
  angles converted from degrees to radians, yaw on \<open>(x, z)\<close> first, then pitch on
  \<open>(y, z)\<close>, then roll on \<open>(x, y)\<close>, each on the point put out by the one before.
  Equivalently, the yaw-only rotation innermost, the pitch-only rotation around it and the
  roll-only rotation outermost give the same point as one call with the three angles. The
  order matters: on \<open>(1, 0, 0)\<close>, yaw 90 then pitch 90 differs from pitch 90 then yaw 90.
\<close>

theorem rotate_yaw_pitch_roll:
  "Rotate v pitch yaw roll = spec_rotate v pitch yaw roll \<and>
   Rotate (Rotate (Rotate v 0 yaw 0) pitch 0 0) 0 0 roll = Rotate v pitch yaw roll \<and>
   Rotate (Rotate (1, 0, 0) 0 90 0) 90 0 0 \<noteq> Rotate (Rotate (1, 0, 0) 90 0 0) 0 90 0"
proof (intro conjI)
  show "Rotate v pitch yaw roll = spec_rotate v pitch yaw roll"
    by (rule rotate_point_spec)
  show "Rotate (Rotate (Rotate v 0 yaw 0) pitch 0 0) 0 0 roll = Rotate v pitch yaw roll"
    unfolding Rotate_yaw_only Rotate_pitch_only Rotate_roll_only
    by (simp add: rotate_point_spec spec_rotate_def)
  show "Rotate (Rotate (1, 0, 0) 0 90 0) 90 0 0 \<noteq> Rotate (Rotate (1, 0, 0) 90 0 0) 0 90 0"
    by (simp add: Rotate_def rotate_point_def Let_def)
qed

subsection \<open>Projection\<close>

text \<open>
  Claim C8. Whatever the viewport width and height and whatever the scale, the origin is
  projected to the centre of the viewport, \<open>(width / 2, height / 2)\<close> truncated to
  integers, and nothing is raised.
\<close>

theorem project_origin_center:
  "project_3d_point 0 0 0 W H scale = Inr (py_int (W / 2), py_int (H / 2))"
  by (simp add: project_3d_point_def py_truediv_def)

section \<open>The render loop in binary64\<close>

subsection \<open>Angles\<close>

lemma deg_to_rad_bounds: "0 \<le> deg_to_rad \<and> deg_to_rad \<le> 1"
proof -
  have "0 \<le> rnd64 pi" by (rule rnd64_nonneg) simp
  moreover have "rnd64 pi \<le> of_int 4"
    using pi_less_4 by (intro rnd64_le_int) simp_all
  ultimately have q: "0 \<le> rnd64 pi / 180" "rnd64 pi / 180 \<le> of_int 1" by simp_all
  from q(1) have "0 \<le> rnd64 (rnd64 pi / 180)" by (rule rnd64_nonneg)
  moreover from q(2) have "rnd64 (rnd64 pi / 180) \<le> of_int 1"
    by (intro rnd64_le_int) simp_all
  ultimately show ?thesis by (simp add: deg_to_rad_def)
qed

lemma finite_f64_cases:
  assumes "finite_f64 v"
  obtains a where "v = Fin a" "\<bar>a\<bar> \<le> max_f64"
  using assms by (cases v) (auto simp: finite_f64_def)

text \<open>A finite angle in degrees is a finite angle in radians.\<close>

lemma math_radians_finite:
  assumes "finite_f64 v"
  shows "finite_f64 (math_radians v)"
proof -
  from assms obtain a where a: "v = Fin a" "\<bar>a\<bar> \<le> max_f64" by (rule finite_f64_cases)
  have "\<bar>a * deg_to_rad\<bar> = \<bar>a\<bar> * deg_to_rad"
    using deg_to_rad_bounds by (simp add: abs_mult)
  also have "\<dots> \<le> \<bar>a\<bar> * 1"
    using deg_to_rad_bounds by (intro mult_left_mono) simp_all
  finally have le: "\<bar>a * deg_to_rad\<bar> \<le> max_f64" using a(2) by simp
  then have "round_fin (a * deg_to_rad) = Fin (rnd64 (a * deg_to_rad))"
    by (rule round_fin_finite)
  with rnd64_abs_le_max [OF le] show ?thesis
    by (simp add: math_radians_def a(1) finite_f64_def)
qed

lemma math_trig_finite:
  "finite_f64 v \<Longrightarrow> \<exists>a. math_trig f v = Inr (Fin (f a))"
  by (erule finite_f64_cases) auto

lemma math_trig_within:
  "libm_ok f \<Longrightarrow> math_trig f v = Inr w \<Longrightarrow> nan_or_within 1 w"
  by (cases v) (auto simp: libm_ok_def)

lemma math_trig_error: "math_trig f v = Inl e \<Longrightarrow> e = ValueError"
  by (cases v) auto

text \<open>The correctly rounded sine and cosine stay between -1 and 1.\<close>

lemma libm_ok_sin64: "libm_ok sin64"
  unfolding libm_ok_def sin64_def
  using rnd64_abs_le_int [of 1] by (simp add: abs_le_iff)

lemma libm_ok_cos64: "libm_ok cos64"
  unfolding libm_ok_def cos64_def
  using rnd64_abs_le_int [of 1] by (simp add: abs_le_iff)

subsection \<open>The rotated vertex\<close>

text \<open>The only exception of \<open>rotate_point\<close> is the \<open>ValueError\<close> of an infinite angle.\<close>

lemma rotate_point_f64_error:
  "rotate_point_f64 sn cs x y z pitch yaw roll = Inl e \<Longrightarrow> e = ValueError"
  by (auto simp: rotate_point_f64_def Let_def bind_err_eq_Inl dest: math_trig_error)

text \<open>The third coordinate comes out of the yaw and pitch steps; the roll step leaves it.\<close>

lemma rotate_point_f64_z:
  assumes "rotate_point_f64 sn cs x y z pitch yaw roll = Inr (rx, ry, rz)"
  shows "\<exists>s c s' c'.
           math_trig sn (math_radians yaw) = Inr s \<and> math_trig cs (math_radians yaw) = Inr c
         \<and> math_trig sn (math_radians pitch) = Inr s' \<and> math_trig cs (math_radians pitch) = Inr c'
         \<and> rz = fadd (fmul y s') (fmul (fadd (fmul x s) (fmul z c)) c')"
  using assms by (auto simp: rotate_point_f64_def Let_def bind_err_eq_Inr)

lemma rotate_point_f64_z_within:
  assumes ok: "libm_ok sn" "libm_ok cs"
    and xyz: "nan_or_within 1 x" "nan_or_within 1 y" "nan_or_within 1 z"
    and rot: "rotate_point_f64 sn cs x y z pitch yaw roll = Inr (rx, ry, rz)"
  shows "nan_or_within 3 rz"
proof -
  from rotate_point_f64_z [OF rot] obtain s c s' c' where
    t: "math_trig sn (math_radians yaw) = Inr s" "math_trig cs (math_radians yaw) = Inr c"
       "math_trig sn (math_radians pitch) = Inr s'" "math_trig cs (math_radians pitch) = Inr c'"
    and rz: "rz = fadd (fmul y s') (fmul (fadd (fmul x s) (fmul z c)) c')"
    by blast
  from ok t have w: "nan_or_within 1 s" "nan_or_within 1 c" "nan_or_within 1 s'" "nan_or_within 1 c'"
    by (blast intro: math_trig_within)+
  have "nan_or_within (1 * 1) (fmul x s)" "nan_or_within (1 * 1) (fmul z c)"
    "nan_or_within (1 * 1) (fmul y s')"
    using xyz w by (intro fmul_within; simp)+
  then have m: "nan_or_within 1 (fmul x s)" "nan_or_within 1 (fmul z c)" "nan_or_within 1 (fmul y s')"
    by simp_all
  then have "nan_or_within (1 + 1) (fadd (fmul x s) (fmul z c))"
    by (intro fadd_within) simp_all
  then have "nan_or_within 2 (fadd (fmul x s) (fmul z c))" by simp
  with w(4) have "nan_or_within (2 * 1) (fmul (fadd (fmul x s) (fmul z c)) c')"
    by (intro fmul_within) simp_all
  then have "nan_or_within 2 (fmul (fadd (fmul x s) (fmul z c)) c')" by simp
  with m(3) have "nan_or_within (1 + 2) (fadd (fmul y s') (fmul (fadd (fmul x s) (fmul z c)) c'))"
    by (intro fadd_within) simp_all
  then show ?thesis by (simp add: rz)
qed

text \<open>On finite angles the rotation returns, and the third coordinate is finite.\<close>

lemma round_fin_not_NaN [simp]: "round_fin r \<noteq> NaN"
  by (simp add: round_fin_def Let_def)

lemma fmul_Fin_cases:
  obtains a where "fmul (Fin u) (Fin v) = Fin a" | "fmul (Fin u) (Fin v) = PInf"
    | "fmul (Fin u) (Fin v) = NInf"
  by (cases "fmul (Fin u) (Fin v)") simp_all

lemma within_Fin: "nan_or_within n v \<Longrightarrow> v \<noteq> NaN \<Longrightarrow> \<exists>a. v = Fin a"
  by (cases v) (simp_all add: nan_or_within_def)

lemma rotate_point_f64_finite:
  assumes ok: "libm_ok sn" "libm_ok cs"
    and xyz: "\<bar>x\<bar> \<le> 1" "\<bar>y\<bar> \<le> 1" "\<bar>z\<bar> \<le> 1"
    and ang: "finite_f64 pitch" "finite_f64 yaw" "finite_f64 roll"
  shows "\<exists>rx ry rz. rotate_point_f64 sn cs (Fin x) (Fin y) (Fin z) pitch yaw roll = Inr (rx, ry, Fin rz)
           \<and> \<bar>rz\<bar> \<le> 3"
proof -
  from ang obtain p w r where
    rad: "math_radians pitch = Fin p" "math_radians yaw = Fin w" "math_radians roll = Fin r"
    by (meson math_radians_finite finite_f64_cases)
  obtain res where res: "rotate_point_f64 sn cs (Fin x) (Fin y) (Fin z) pitch yaw roll = Inr res"
    by (simp add: rotate_point_f64_def Let_def rad)
  obtain rx ry rz where r3: "res = (rx, ry, rz)" by (cases res)
  from rotate_point_f64_z [OF res [unfolded r3]]
  have rz: "rz = fadd (fmul (Fin y) (Fin (sn p)))
                      (fmul (fadd (fmul (Fin x) (Fin (sn w))) (fmul (Fin z) (Fin (cs w)))) (Fin (cs p)))"
    by (auto simp: rad)
  from ok have t: "\<bar>sn p\<bar> \<le> 1" "\<bar>sn w\<bar> \<le> 1" "\<bar>cs w\<bar> \<le> 1" "\<bar>cs p\<bar> \<le> 1"
    by (simp_all add: libm_ok_def)
  have prod: "\<bar>a * b\<bar> \<le> of_int 1" if "\<bar>a\<bar> \<le> 1" "\<bar>b\<bar> \<le> 1" for a b :: real
    unfolding abs_mult using that mult_mono [of "\<bar>a\<bar>" 1 "\<bar>b\<bar>" 1] by simp
  obtain m1 where m1: "fmul (Fin x) (Fin (sn w)) = Fin m1" "\<bar>m1\<bar> \<le> 1"
    using round_fin_within [of 1 "x * sn w"] prod [OF xyz(1) t(2)] by auto
  obtain m2 where m2: "fmul (Fin z) (Fin (cs w)) = Fin m2" "\<bar>m2\<bar> \<le> 1"
    using round_fin_within [of 1 "z * cs w"] prod [OF xyz(3) t(3)] by auto
  obtain m3 where m3: "fmul (Fin y) (Fin (sn p)) = Fin m3" "\<bar>m3\<bar> \<le> 1"
    using round_fin_within [of 1 "y * sn p"] prod [OF xyz(2) t(1)] by auto
  from m1(2) m2(2) have "\<bar>m1 + m2\<bar> \<le> of_int 2" by simp
  then obtain z1 where z1: "fadd (Fin m1) (Fin m2) = Fin z1" "\<bar>z1\<bar> \<le> 2"
    using round_fin_within [of 2 "m1 + m2"] by auto
  have "\<bar>z1 * cs p\<bar> \<le> of_int 2"
    unfolding abs_mult using z1(2) t(4) mult_mono [of "\<bar>z1\<bar>" 2 "\<bar>cs p\<bar>" 1] by simp
  then obtain m4 where m4: "fmul (Fin z1) (Fin (cs p)) = Fin m4" "\<bar>m4\<bar> \<le> 2"
    using round_fin_within [of 2 "z1 * cs p"] by auto
  from m3(2) m4(2) have "\<bar>m3 + m4\<bar> \<le> of_int 3" by simp
  then obtain z2 where z2: "fadd (Fin m3) (Fin m4) = Fin z2" "\<bar>z2\<bar> \<le> 3"
    using round_fin_within [of 3 "m3 + m4"] by auto
  from rz have "rz = Fin z2" by (simp only: m1 m2 m3 z1 m4 z2)
  with res r3 z2(2) show ?thesis by blast
qed

subsection \<open>Depth and divisor\<close>

lemma depth_divisor_finite:
  assumes "\<bar>rz\<bar> \<le> 3"
  shows "\<exists>d e. fsub (Fin rz) (float_of_int 5) = Fin d \<and> - 8 \<le> d \<and> d \<le> - 2
           \<and> fadd (Fin d) (float_of_int 400) = Fin e \<and> 392 \<le> e \<and> e \<le> 398"
proof -
  from assms have "of_int (- 8) \<le> rz + - 5" "rz + - 5 \<le> of_int (- 2)" by simp_all
  with round_fin_between [of "- 8" "- 2" "rz + - 5"]
  obtain d where d: "round_fin (rz + - 5) = Fin d" "- 8 \<le> d" "d \<le> - 2" by auto
  then have "of_int 392 \<le> d + 400" "d + 400 \<le> of_int 398" by simp_all
  with round_fin_between [of 392 398 "d + 400"]
  obtain e where e: "round_fin (d + 400) = Fin e" "392 \<le> e" "e \<le> 398" by auto
  from d e show ?thesis by (simp add: fsub_def float_of_int_def)
qed

lemma divisor_nonzero:
  assumes "nan_or_within 3 rz"
  shows "fadd (fsub rz (float_of_int 5)) (float_of_int 400) \<noteq> Fin 0"
  using assms
proof (cases rule: nan_or_within_cases)
  case 1
  then show ?thesis by (simp add: fsub_def)
next
  case (2 a)
  then have "\<bar>a\<bar> \<le> 3" by simp
  from depth_divisor_finite [OF this] 2(1) show ?thesis by auto
qed

subsection \<open>Projection\<close>

lemma py_int_f64_error: "py_int_f64 v = Inl e \<Longrightarrow> e \<noteq> ZeroDivisionError"
  by (cases v) auto

text \<open>The projection divides by zero only when \<open>z + 400\<close> is zero.\<close>

lemma project_3d_point_f64_zero_division:
  assumes "project_3d_point_f64 x y z width height scale = Inl ZeroDivisionError"
  shows "fadd z (float_of_int 400) = Fin 0"
proof (rule ccontr)
  assume nz: "fadd z (float_of_int 400) \<noteq> Fin 0"
  then obtain factor where f: "fdiv (float_of_int 300) (fadd z (float_of_int 400)) = Inr factor"
    using fdiv_total by blast
  obtain hw hh where h: "fdiv width (float_of_int 2) = Inr hw" "fdiv height (float_of_int 2) = Inr hh"
    using fdiv_const [of 2] by (metis zero_neq_numeral)
  from assms show False
    by (auto simp: project_3d_point_f64_def f h Let_def bind_err_eq_Inl dest: py_int_f64_error)
qed

subsection \<open>The loop body and the loop\<close>

lemma vertices_unit:
  "(v0, v1, v2) \<in> set vertices \<Longrightarrow> \<bar>v0\<bar> = 1 \<and> \<bar>v1\<bar> = 1 \<and> \<bar>v2\<bar> = 1"
  by (auto simp: vertices_def)

lemma rotated_vertex_within:
  assumes "libm_ok sn" "libm_ok cs" and "v \<in> set vertices"
    and "rotated_vertex sn cs p v = Inr (rx, ry, rz)"
  shows "nan_or_within 3 rz"
proof -
  obtain v0 v1 v2 where v: "v = (v0, v1, v2)" by (cases v)
  with assms(3) vertices_unit have "\<bar>v0\<bar> = 1" "\<bar>v1\<bar> = 1" "\<bar>v2\<bar> = 1" by blast+
  then have "nan_or_within 1 (float_of_int v0)" "nan_or_within 1 (float_of_int v1)"
    "nan_or_within 1 (float_of_int v2)"
    by (simp_all add: float_of_int_def)
  from rotate_point_f64_z_within [OF assms(1,2) this] assms(4) show ?thesis
    by (simp add: rotated_vertex_def v)
qed

lemma transform_vertex_no_zero_division:
  assumes "libm_ok sn" "libm_ok cs" and "v \<in> set vertices"
  shows "transform_vertex sn cs p v \<noteq> Inl ZeroDivisionError"
proof
  assume zd: "transform_vertex sn cs p v = Inl ZeroDivisionError"
  obtain dx dy where d: "fdiv (pose_x p) (float_of_int 10) = Inr dx"
      "fdiv (pose_y p) (float_of_int 10) = Inr dy"
    using fdiv_const [of 10] by (metis zero_neq_numeral)
  show False
  proof (cases "rotated_vertex sn cs p v")
    case (Inl e)
    then have "e = ValueError"
      by (cases v) (auto simp: rotated_vertex_def dest: rotate_point_f64_error)
    with zd Inl show False by (simp add: transform_vertex_def)
  next
    case (Inr r)
    obtain rx ry rz where r: "r = (rx, ry, rz)" by (cases r)
    from rotated_vertex_within [OF assms] Inr r have "nan_or_within 3 rz" by simp
    then have "fadd (fsub rz (float_of_int 5)) (float_of_int 400) \<noteq> Fin 0"
      by (rule divisor_nonzero)
    moreover from zd have "project_3d_point_f64 (fadd rx dx) (fadd ry dy) (fsub rz (float_of_int 5))
        (float_of_int WINDOW_WIDTH) (float_of_int WINDOW_HEIGHT) (float_of_int BOX_SCALE)
        = Inl ZeroDivisionError"
      by (simp add: transform_vertex_def Inr r d Let_def)
    ultimately show False using project_3d_point_f64_zero_division by blast
  qed
qed

lemma map_err_error: "map_err f vs = Inl e \<Longrightarrow> \<exists>v\<in>set vs. f v = Inl e"
  by (induction vs) (auto simp: bind_err_eq_Inl)

text \<open>
  C10 as it is worded fails on a pose whose yaw is NaN, which the decoder delivers as it
  delivers any other 8 bytes: the rotated vertex is NaN in all three coordinates, so its
  third coordinate is not in the interval, the divisor is NaN and not positive, and the
  loop body raises \<open>ValueError\<close> at \<open>int()\<close>.
\<close>

theorem cube_depth_counterexample:
  "(1, 1, 1) \<in> set vertices
   \<and> rotated_vertex sin64 cos64
        \<lparr>pose_x = Fin 0, pose_y = Fin 0, pose_z = Fin 0, pose_yaw = NaN, pose_pitch = Fin 0,
         pose_roll = Fin 0\<rparr> (1, 1, 1) = Inr (NaN, NaN, NaN)
   \<and> \<not> (\<exists>rx ry rz. rotated_vertex sin64 cos64
        \<lparr>pose_x = Fin 0, pose_y = Fin 0, pose_z = Fin 0, pose_yaw = NaN, pose_pitch = Fin 0,
         pose_roll = Fin 0\<rparr> (1, 1, 1) = Inr (rx, ry, Fin rz) \<and> - sqrt 3 \<le> rz \<and> rz \<le> sqrt 3)
   \<and> fadd (fsub NaN (float_of_int 5)) (float_of_int 400) = NaN
   \<and> transform_vertex sin64 cos64
        \<lparr>pose_x = Fin 0, pose_y = Fin 0, pose_z = Fin 0, pose_yaw = NaN, pose_pitch = Fin 0,
         pose_roll = Fin 0\<rparr> (1, 1, 1) = Inl ValueError"
proof -
  let ?p = "\<lparr>pose_x = Fin 0, pose_y = Fin 0, pose_z = Fin 0, pose_yaw = NaN, pose_pitch = Fin 0,
         pose_roll = Fin 0\<rparr>"
  have rot: "rotated_vertex sin64 cos64 ?p (1, 1, 1) = Inr (NaN, NaN, NaN)"
    by (simp add: rotated_vertex_def rotate_point_f64_def math_radians_def float_of_int_def
          sin64_def cos64_def fsub_def Let_def)
  have tr: "transform_vertex sin64 cos64 ?p (1, 1, 1) = Inl ValueError"
    by (simp add: transform_vertex_def rot project_3d_point_f64_def float_of_int_def fsub_def
          Let_def)
  have "(1, 1, 1) \<in> set vertices" by (simp add: vertices_def)
  with rot tr show ?thesis by (simp add: fsub_def)
qed

text \<open>
  Claim C10, amended. The platform's sine and cosine are assumed to return values between
  -1 and 1. For every pose, whatever its fields (finite, infinite or NaN), and every
  vertex of the cube, \<open>project_3d_point\<close> does not divide by zero: neither the loop body
  nor the loop raises \<open>ZeroDivisionError\<close>. For every pose whose yaw, pitch and roll are
  finite, every rotated vertex has a finite third coordinate \<open>rz\<close> of magnitude at most 3,
  the depth handed to the projection is \<open>rz - 5\<close> rounded, between -8 and -2, and the
  divisor \<open>depth + 400\<close> is at least 392, so strictly positive.
\<close>

theorem cube_never_divides_by_zero:
  assumes "libm_ok sn" and "libm_ok cs"
  shows "(\<forall>v\<in>set vertices. transform_vertex sn cs p v \<noteq> Inl ZeroDivisionError)
       \<and> proj_points sn cs p \<noteq> Inl ZeroDivisionError
       \<and> (finite_f64 (pose_yaw p) \<and> finite_f64 (pose_pitch p) \<and> finite_f64 (pose_roll p) \<longrightarrow>
            (\<forall>v\<in>set vertices. \<exists>rx ry rz d e.
                 rotated_vertex sn cs p v = Inr (rx, ry, Fin rz) \<and> \<bar>rz\<bar> \<le> 3
               \<and> fsub (Fin rz) (float_of_int 5) = Fin d \<and> - 8 \<le> d \<and> d \<le> - 2
               \<and> fadd (Fin d) (float_of_int 400) = Fin e \<and> 392 \<le> e))"
proof (intro conjI ballI impI)
  fix v
  assume "v \<in> set vertices"
  with assms show "transform_vertex sn cs p v \<noteq> Inl ZeroDivisionError"
    by (rule transform_vertex_no_zero_division)
next
  show "proj_points sn cs p \<noteq> Inl ZeroDivisionError"
  proof
    assume "proj_points sn cs p = Inl ZeroDivisionError"
    then obtain v where "v \<in> set vertices" "transform_vertex sn cs p v = Inl ZeroDivisionError"
      unfolding proj_points_def by (blast dest: map_err_error)
    with transform_vertex_no_zero_division [OF assms] show False by blast
  qed
next
  fix v
  assume fin: "finite_f64 (pose_yaw p) \<and> finite_f64 (pose_pitch p) \<and> finite_f64 (pose_roll p)"
    and v: "v \<in> set vertices"
  obtain v0 v1 v2 where v3: "v = (v0, v1, v2)" by (cases v)
  with v vertices_unit have "\<bar>v0\<bar> = 1" "\<bar>v1\<bar> = 1" "\<bar>v2\<bar> = 1" by blast+
  then have u: "\<bar>real_of_int v0\<bar> \<le> 1" "\<bar>real_of_int v1\<bar> \<le> 1" "\<bar>real_of_int v2\<bar> \<le> 1"
    by linarith+
  from fin have "finite_f64 (pose_pitch p)" "finite_f64 (pose_yaw p)" "finite_f64 (pose_roll p)"
    by simp_all
  from rotate_point_f64_finite [OF assms u this] obtain rx ry rz where
    rot: "rotated_vertex sn cs p v = Inr (rx, ry, Fin rz)" and rz: "\<bar>rz\<bar> \<le> 3"
    by (auto simp: rotated_vertex_def v3 float_of_int_def)
  from depth_divisor_finite [OF rz] rot rz
  show "\<exists>rx ry rz d e.
                 rotated_vertex sn cs p v = Inr (rx, ry, Fin rz) \<and> \<bar>rz\<bar> \<le> 3
               \<and> fsub (Fin rz) (float_of_int 5) = Fin d \<and> - 8 \<le> d \<and> d \<le> - 2
               \<and> fadd (Fin d) (float_of_int 400) = Fin e \<and> 392 \<le> e"
    by blast
qed

text \<open>
  C10, amended, with the correctly rounded sine and cosine, at the vertex \<open>(1, 1, 1)\<close> and
  the pose that is zero in all six fields.
\<close>

theorem cube_never_divides_by_zero_witness:
  "libm_ok sin64 \<and> libm_ok cos64 \<and> (1, 1, 1) \<in> set vertices
   \<and> rotated_vertex sin64 cos64
        \<lparr>pose_x = Fin 0, pose_y = Fin 0, pose_z = Fin 0, pose_yaw = Fin 0, pose_pitch = Fin 0,
         pose_roll = Fin 0\<rparr> (1, 1, 1) = Inr (Fin 1, Fin 1, Fin 1)
   \<and> fsub (Fin 1) (float_of_int 5) = Fin (- 4)
   \<and> fadd (Fin (- 4)) (float_of_int 400) = Fin 396
   \<and> transform_vertex sin64 cos64
        \<lparr>pose_x = Fin 0, pose_y = Fin 0, pose_z = Fin 0, pose_yaw = Fin 0, pose_pitch = Fin 0,
         pose_roll = Fin 0\<rparr> (1, 1, 1) \<noteq> Inl ZeroDivisionError"
proof -
  let ?p = "\<lparr>pose_x = Fin 0, pose_y = Fin 0, pose_z = Fin 0, pose_yaw = Fin 0, pose_pitch = Fin 0,
         pose_roll = Fin 0\<rparr>"
  have v: "(1, 1, 1) \<in> set vertices" by (simp add: vertices_def)
  have rot: "rotated_vertex sin64 cos64 ?p (1, 1, 1) = Inr (Fin 1, Fin 1, Fin 1)"
    by (simp add: rotated_vertex_def rotate_point_f64_def math_radians_def float_of_int_def
          sin64_def cos64_def fsub_def Let_def)
  have d: "fsub (Fin 1) (float_of_int 5) = Fin (- 4)" "fadd (Fin (- 4)) (float_of_int 400) = Fin 396"
    by (simp_all add: fsub_def float_of_int_def)
  from cube_never_divides_by_zero [OF libm_ok_sin64 libm_ok_cos64, of ?p] v
  have "transform_vertex sin64 cos64 ?p (1, 1, 1) \<noteq> Inl ZeroDivisionError"
    by blast
  with libm_ok_sin64 libm_ok_cos64 v rot d show ?thesis by simp
qed

section \<open>Gaze mapper\<close>

subsection \<open>Averaged edges of a table of four samples\<close>

lemma corner_avg_4:
  "i < 4 \<Longrightarrow> j < 4 \<Longrightarrow> corner_avg [c0, c1, c2, c3] i j sel
     = fdiv (fadd (sel ([c0, c1, c2, c3] ! i)) (sel ([c0, c1, c2, c3] ! j))) (float_of_int 2)"
  by (simp add: corner_avg_def py_index_def)

lemma edges_4:
  "yaw_left [c0, c1, c2, c3] = fdiv (fadd (fst c0) (fst c3)) (float_of_int 2)"
  "yaw_right [c0, c1, c2, c3] = fdiv (fadd (fst c1) (fst c2)) (float_of_int 2)"
  "pitch_top [c0, c1, c2, c3] = fdiv (fadd (snd c0) (snd c1)) (float_of_int 2)"
  "pitch_bottom [c0, c1, c2, c3] = fdiv (fadd (snd c2) (snd c3)) (float_of_int 2)"
  by (simp_all add: yaw_left_def yaw_right_def pitch_top_def pitch_bottom_def corner_avg_4)

lemma halve_total: "\<exists>w. fdiv u (float_of_int 2) = Inr w"
  using fdiv_const [of 2] by simp

text \<open>The average of a finite value with itself is finite unless the sum overflows.\<close>

lemma average_same_finite:
  assumes "\<bar>a\<bar> \<le> max_f64 / 2"
  shows "\<exists>w. fdiv (fadd (Fin a) (Fin a)) (float_of_int 2) = Inr (Fin w)"
proof -
  define t where "t = rnd64 (a + a)"
  from assms have le: "\<bar>a + a\<bar> \<le> max_f64" by simp
  from round_fin_finite [OF le] have s: "fadd (Fin a) (Fin a) = Fin t"
    by (simp only: fadd.simps t_def)
  from rnd64_abs_le_max [OF le] have "\<bar>t / 2\<bar> \<le> max_f64" by (simp add: t_def)
  then have "round_fin (t / 2) = Fin (rnd64 (t / 2))"
    by (rule round_fin_finite)
  then have "fdiv (Fin t) (float_of_int 2) = Inr (Fin (rnd64 (t / 2)))"
    by (simp add: float_of_int_def)
  then show ?thesis unfolding s by blast
qed

text \<open>The average of a double with itself is that double.\<close>

lemma average_same_double:
  assumes "is_double a" and "\<bar>a\<bar> \<le> max_f64 / 2"
  shows "fdiv (fadd (Fin a) (Fin a)) (float_of_int 2) = Inr (Fin a)"
proof -
  define t where "t = a + a"
  from assms(1) have fixed: "rnd64 a = a" by (simp add: is_double_def)
  from assms(2) have le: "\<bar>a + a\<bar> \<le> max_f64" by simp
  from round_fin_finite [OF le] have s: "fadd (Fin a) (Fin a) = Fin t"
    by (simp only: fadd.simps rnd64_double_sum [OF fixed] t_def)
  have "t / 2 = a" by (simp add: t_def)
  with assms(1) have "round_fin (t / 2) = Fin a" by (simp only: round_fin_double)
  then have "fdiv (Fin t) (float_of_int 2) = Inr (Fin a)"
    by (simp add: float_of_int_def)
  then show ?thesis unfolding s .
qed

lemma fsub_self [simp]: "fsub (Fin w) (Fin w) = Fin 0"
  by (simp add: fsub_def)

subsection \<open>The guarded quotient\<close>

lemma guarded_ratio_total: "\<exists>r. guarded_ratio v lo hi = Inr r"
  using fdiv_total [of "fsub hi lo" "fsub v lo"] by (auto simp: guarded_ratio_def fne0_def)

lemma guarded_ratio_zero: "fsub hi lo = Fin 0 \<Longrightarrow> guarded_ratio v lo hi = Inr (Fin 0.5)"
  by (simp add: guarded_ratio_def fne0_def)

text \<open>Between two distinct doubles the lower end is mapped to 0 and the upper end to 1.\<close>

lemma guarded_ratio_ends:
  assumes a: "is_double a" "\<bar>a\<bar> \<le> max_f64 / 2" and b: "is_double b" "\<bar>b\<bar> \<le> max_f64 / 2"
    and ab: "a \<noteq> b"
  shows "guarded_ratio (Fin a) (Fin a) (Fin b) = Inr (Fin 0)"
    and "guarded_ratio (Fin b) (Fin a) (Fin b) = Inr (Fin 1)"
proof -
  define D where "D = rnd64 (b + - a)"
  from a b have "rnd64 a = a" "rnd64 b = b" by (simp_all add: is_double_def)
  from rnd64_diff_nonzero [OF this ab] have D0: "D \<noteq> 0" by (simp add: D_def)
  from a(2) b(2) have "\<bar>b + - a\<bar> \<le> max_f64" by simp
  then have den: "fsub (Fin b) (Fin a) = Fin D"
    by (simp add: fsub_def round_fin_finite D_def)
  with D0 show "guarded_ratio (Fin a) (Fin a) (Fin b) = Inr (Fin 0)"
    by (simp add: guarded_ratio_def fne0_def)
  from den D0 show "guarded_ratio (Fin b) (Fin a) (Fin b) = Inr (Fin 1)"
    by (simp add: guarded_ratio_def fne0_def)
qed

subsection \<open>Corner interpolation on a table of four samples\<close>

lemma corner_ratios_total:
  assumes "length pts = 4"
  shows "\<exists>rx ry. corner_ratios pts yaw pitch = Inr (rx, ry)"
proof -
  from assms obtain c0 c1 c2 c3 where pts: "pts = [c0, c1, c2, c3]"
    using length_4_list by blast
  obtain yl yr pt pb where e: "yaw_left pts = Inr yl" "yaw_right pts = Inr yr"
      "pitch_top pts = Inr pt" "pitch_bottom pts = Inr pb"
    unfolding pts edges_4 using halve_total by metis
  obtain rx ry where "guarded_ratio yaw yl yr = Inr rx" "guarded_ratio pitch pt pb = Inr ry"
    using guarded_ratio_total by metis
  with e show ?thesis by (simp add: corner_ratios_def)
qed

text \<open>
  C2 as it is worded fails on the table \<open>(0, 0), (10, 0), (10, 10), (2, 10)\<close>: the left
  yaw is the average of the Top-Left and Bottom-Left yaws, here 1, so the Top-Left sample
  itself is mapped to \<open>ratio_x = - 1 / 9\<close>, rounded, which is below \<open>- 1 / 16\<close>.
\<close>

theorem corner_sample_counterexample:
  "corner_ratios [(Fin 0, Fin 0), (Fin 10, Fin 0), (Fin 10, Fin 10), (Fin 2, Fin 10)] (Fin 0) (Fin 0)
     = Inr (Fin (rnd64 (- (1 / 9))), Fin 0)
   \<and> rnd64 (- (1 / 9)) \<le> - (1 / 16)
   \<and> corner_ratios [(Fin 0, Fin 0), (Fin 10, Fin 0), (Fin 10, Fin 10), (Fin 2, Fin 10)] (Fin 0) (Fin 0)
     \<noteq> Inr (Fin 0, Fin 0)"
proof -
  have "real_of_int 1 * 2 powr of_int (- 4) \<le> 1 / 9"
    using two_powr_neg_nat [of 4] by simp
  from rnd64_ge_pos [OF _ _ _ this] have "real_of_int 1 * 2 powr of_int (- 4) \<le> rnd64 (1 / 9)"
    by simp
  then have "1 / 16 \<le> rnd64 (1 / 9)"
    using two_powr_neg_nat [of 4] by simp
  then have r: "rnd64 (- (1 / 9)) \<le> - (1 / 16)"
    by (simp add: rnd64_minus)
  have "\<bar>- (1 / 9) :: real\<bar> \<le> max_f64" using max_f64_pos by simp
  then have q: "round_fin (- (1 / 9)) = Fin (rnd64 (- (1 / 9)))" by (rule round_fin_finite)
  have "corner_ratios [(Fin 0, Fin 0), (Fin 10, Fin 0), (Fin 10, Fin 10), (Fin 2, Fin 10)]
      (Fin 0) (Fin 0) = Inr (Fin (rnd64 (- (1 / 9))), Fin 0)"
    by (simp add: corner_ratios_def edges_4 float_of_int_def guarded_ratio_def fne0_def fsub_def q)
  with r show ?thesis by auto
qed

text \<open>
  Claim C2, amended. On a completed table of four samples that is a rectangle of finite
  doubles (Top-Left and Bottom-Left have the yaw \<open>a\<close>, Top-Right and Bottom-Right the yaw
  \<open>b\<close>, Top-Left and Top-Right the pitch \<open>c\<close>, Bottom-Right and Bottom-Left the pitch
  \<open>d\<close>) with \<open>a \<noteq> b\<close>, \<open>c \<noteq> d\<close> and all four of magnitude at most half the largest
  double, the Top-Left sample is mapped to the ratios \<open>(0, 0)\<close> and the Bottom-Right sample
  to \<open>(1, 1)\<close>.
\<close>

theorem corner_sample_roundtrip:
  assumes "is_double a" "\<bar>a\<bar> \<le> max_f64 / 2" and "is_double b" "\<bar>b\<bar> \<le> max_f64 / 2"
    and "is_double c" "\<bar>c\<bar> \<le> max_f64 / 2" and "is_double d" "\<bar>d\<bar> \<le> max_f64 / 2"
    and "a \<noteq> b" and "c \<noteq> d"
  shows "corner_ratios [(Fin a, Fin c), (Fin b, Fin c), (Fin b, Fin d), (Fin a, Fin d)] (Fin a) (Fin c)
           = Inr (Fin 0, Fin 0)
       \<and> corner_ratios [(Fin a, Fin c), (Fin b, Fin c), (Fin b, Fin d), (Fin a, Fin d)] (Fin b) (Fin d)
           = Inr (Fin 1, Fin 1)"
proof -
  let ?pts = "[(Fin a, Fin c), (Fin b, Fin c), (Fin b, Fin d), (Fin a, Fin d)]"
  have e: "yaw_left ?pts = Inr (Fin a)" "yaw_right ?pts = Inr (Fin b)"
    "pitch_top ?pts = Inr (Fin c)" "pitch_bottom ?pts = Inr (Fin d)"
    using average_same_double [OF assms(1,2)] average_same_double [OF assms(3,4)]
      average_same_double [OF assms(5,6)] average_same_double [OF assms(7,8)]
    by (simp_all only: edges_4 fst_conv snd_conv)
  from assms show ?thesis
    by (simp add: corner_ratios_def e guarded_ratio_ends)
qed

text \<open>C2, amended, on the rectangle with yaws -20 and 20 and pitches -15 and 15.\<close>

theorem corner_sample_roundtrip_witness:
  "is_double (- 20) \<and> is_double 20 \<and> is_double (- 15) \<and> is_double 15
   \<and> corner_ratios [(Fin (- 20), Fin (- 15)), (Fin 20, Fin (- 15)), (Fin 20, Fin 15),
        (Fin (- 20), Fin 15)] (Fin (- 20)) (Fin (- 15)) = Inr (Fin 0, Fin 0)
   \<and> corner_ratios [(Fin (- 20), Fin (- 15)), (Fin 20, Fin (- 15)), (Fin 20, Fin 15),
        (Fin (- 20), Fin 15)] (Fin 20) (Fin 15) = Inr (Fin 1, Fin 1)"
proof -
  have d: "is_double (- 20)" "is_double 20" "is_double (- 15)" "is_double 15"
    using is_double_int [of "- 20"] is_double_int [of 20] is_double_int [of "- 15"]
      is_double_int [of 15] by simp_all
  have m: "\<bar>- 20 :: real\<bar> \<le> max_f64 / 2" "\<bar>20 :: real\<bar> \<le> max_f64 / 2"
    "\<bar>- 15 :: real\<bar> \<le> max_f64 / 2" "\<bar>15 :: real\<bar> \<le> max_f64 / 2"
    by (simp_all add: max_f64_def)
  from corner_sample_roundtrip [OF d(1) m(1) d(2) m(2) d(3) m(3) d(4) m(4)] d
  show ?thesis by simp
qed

subsection \<open>Degenerate tables\<close>

text \<open>The double \<open>2 ^ 1023\<close> added to itself overflows.\<close>

lemma is_double_2_1023: "is_double (2 ^ 1023)"
  unfolding is_double_def
proof (rule conjI)
  show "rnd64 (2 ^ 1023) = 2 ^ 1023" by (rule rnd64_pow2)
  show "\<bar>(2::real) ^ 1023\<bar> \<le> max_f64" by (simp add: max_f64_def)
qed

lemma fadd_overflow: "fadd (Fin (2 ^ 1023)) (Fin (2 ^ 1023)) = PInf"
proof -
  have "(2::real) ^ 1023 + 2 ^ 1023 = 2 ^ 1024" by simp
  moreover have "max_f64 < 2 ^ 1024" by (simp add: max_f64_def)
  ultimately have "round_fin (2 ^ 1023 + 2 ^ 1023) = PInf"
    by (simp only: round_fin_def rnd64_pow2 Let_def if_True)
  then show ?thesis by (simp only: fadd.simps)
qed

text \<open>What the code computes on a table whose equal yaws overflow when added.\<close>

lemma overflow_ratios:
  assumes "fadd (Fin h) (Fin h) = PInf"
  shows "corner_ratios [(Fin h, Fin 0), (Fin h, Fin 0), (Fin h, Fin 0), (Fin h, Fin 0)]
           (Fin 0) (Fin 0) = Inr (NaN, Fin 0.5)"
    and "corner_gaze [(Fin h, Fin 0), (Fin h, Fin 0), (Fin h, Fin 0), (Fin h, Fin 0)]
           \<lparr>pose_x = Fin 0, pose_y = Fin 0, pose_z = Fin 0, pose_yaw = Fin 0,
            pose_pitch = Fin 0, pose_roll = Fin 0\<rparr> = Inl ValueError"
proof -
  let ?pts = "[(Fin h, Fin 0), (Fin h, Fin 0), (Fin h, Fin 0), (Fin h, Fin 0)]"
  have "fdiv PInf (float_of_int 2) = Inr PInf"
    by (simp add: float_of_int_def)
  then have e: "yaw_left ?pts = Inr PInf" "yaw_right ?pts = Inr PInf"
    by (simp_all only: edges_4 fst_conv assms)
  have p: "pitch_top ?pts = Inr (Fin 0)" "pitch_bottom ?pts = Inr (Fin 0)"
    by (simp_all add: edges_4 float_of_int_def)
  show r: "corner_ratios ?pts (Fin 0) (Fin 0) = Inr (NaN, Fin 0.5)"
    by (simp add: corner_ratios_def e p guarded_ratio_def fne0_def fsub_def)
  show "corner_gaze ?pts \<lparr>pose_x = Fin 0, pose_y = Fin 0, pose_z = Fin 0, pose_yaw = Fin 0,
      pose_pitch = Fin 0, pose_roll = Fin 0\<rparr> = Inl ValueError"
    by (simp add: corner_gaze_def r)
qed

text \<open>
  C3 as it is worded fails on the table whose four samples have the yaw \<open>2 ^ 1023\<close>, a
  double: the two averaged yaws are \<open>+inf\<close>, their difference is NaN, which passes the
  test \<open>!= 0\<close>, and \<open>ratio_x\<close> is NaN instead of 0.5; \<open>int()\<close> then raises
  \<open>ValueError\<close>.
\<close>

theorem degenerate_ratio_counterexample:
  "is_double (2 ^ 1023)
   \<and> corner_ratios [(Fin (2 ^ 1023), Fin 0), (Fin (2 ^ 1023), Fin 0), (Fin (2 ^ 1023), Fin 0),
        (Fin (2 ^ 1023), Fin 0)] (Fin 0) (Fin 0) = Inr (NaN, Fin 0.5)
   \<and> corner_gaze [(Fin (2 ^ 1023), Fin 0), (Fin (2 ^ 1023), Fin 0), (Fin (2 ^ 1023), Fin 0),
        (Fin (2 ^ 1023), Fin 0)]
        \<lparr>pose_x = Fin 0, pose_y = Fin 0, pose_z = Fin 0, pose_yaw = Fin 0, pose_pitch = Fin 0,
         pose_roll = Fin 0\<rparr> = Inl ValueError"
  using is_double_2_1023 overflow_ratios [OF fadd_overflow] by blast

text \<open>
  Claim C3, amended. On a completed table of four samples the ratios are computed without
  an exception, for every yaw and pitch put in. When the four samples have the same finite
  yaw, of magnitude at most half the largest double (so that the sum of two of them does
  not overflow), \<open>ratio_x\<close> is 0.5 for every yaw put in. Whenever the yaw divisor that the
  code computes is zero, \<open>ratio_x\<close> is 0.5; whenever the pitch divisor is zero,
  \<open>ratio_y\<close> is 0.5.
\<close>

theorem degenerate_ratio_half:
  assumes "length pts = 4"
  shows "(\<exists>rx ry. corner_ratios pts yaw pitch = Inr (rx, ry))
       \<and> (\<forall>a. \<bar>a\<bar> \<le> max_f64 / 2 \<and> (\<forall>i<4. fst (pts ! i) = Fin a)
              \<longrightarrow> (\<exists>ry. corner_ratios pts yaw pitch = Inr (Fin 0.5, ry)))
       \<and> (\<forall>yl yr. yaw_left pts = Inr yl \<and> yaw_right pts = Inr yr \<and> fsub yr yl = Fin 0
              \<longrightarrow> (\<exists>ry. corner_ratios pts yaw pitch = Inr (Fin 0.5, ry)))
       \<and> (\<forall>pt pb. pitch_top pts = Inr pt \<and> pitch_bottom pts = Inr pb \<and> fsub pb pt = Fin 0
              \<longrightarrow> (\<exists>rx. corner_ratios pts yaw pitch = Inr (rx, Fin 0.5)))"
proof -
  from assms obtain c0 c1 c2 c3 where pts: "pts = [c0, c1, c2, c3]"
    using length_4_list by blast
  obtain yl yr pt pb where e: "yaw_left pts = Inr yl" "yaw_right pts = Inr yr"
      "pitch_top pts = Inr pt" "pitch_bottom pts = Inr pb"
    unfolding pts edges_4 using halve_total by metis
  obtain rx ry where g: "guarded_ratio yaw yl yr = Inr rx" "guarded_ratio pitch pt pb = Inr ry"
    using guarded_ratio_total by metis
  have val: "corner_ratios pts yaw pitch = Inr (rx, ry)"
    by (simp add: corner_ratios_def e g)
  have zero_x: "rx = Fin 0.5" if "fsub yr yl = Fin 0"
    using guarded_ratio_zero [OF that, of yaw] g(1) by simp
  have zero_y: "ry = Fin 0.5" if "fsub pb pt = Fin 0"
    using guarded_ratio_zero [OF that, of pitch] g(2) by simp
  have same: "rx = Fin 0.5" if a: "\<bar>a\<bar> \<le> max_f64 / 2" "\<forall>i<4. fst (pts ! i) = Fin a" for a
  proof -
    from a(2) [rule_format, of 0] a(2) [rule_format, of 1] a(2) [rule_format, of 2]
      a(2) [rule_format, of 3]
    have c: "fst c0 = Fin a" "fst c1 = Fin a" "fst c2 = Fin a" "fst c3 = Fin a"
      by (simp_all add: pts)
    from average_same_finite [OF a(1)] obtain w where
      w: "fdiv (fadd (Fin a) (Fin a)) (float_of_int 2) = Inr (Fin w)" by blast
    from e(1,2) have "yl = Fin w" "yr = Fin w"
      by (simp_all only: pts edges_4 c w sum.inject)
    then have "fsub yr yl = Fin 0" by simp
    then show ?thesis by (rule zero_x)
  qed
  from val zero_x zero_y same e show ?thesis by auto
qed

text \<open>
  C3, amended, on a table with the yaw 5 throughout, and on a table with the pitch 6
  throughout.
\<close>

theorem degenerate_ratio_half_witness:
  "length [(Fin 5, Fin 1), (Fin 5, Fin 2), (Fin 5, Fin 4), (Fin 5, Fin 3)] = 4
   \<and> (\<exists>ry. corner_ratios [(Fin 5, Fin 1), (Fin 5, Fin 2), (Fin 5, Fin 4), (Fin 5, Fin 3)]
        (Fin 7) (Fin 2) = Inr (Fin 0.5, ry))
   \<and> (\<exists>rx. corner_ratios [(Fin 1, Fin 6), (Fin 2, Fin 6), (Fin 4, Fin 6), (Fin 3, Fin 6)]
        (Fin 2) (Fin 9) = Inr (rx, Fin 0.5))"
proof -
  let ?t = "[(Fin 5, Fin 1), (Fin 5, Fin 2), (Fin 5, Fin 4), (Fin 5, Fin 3)]"
  let ?u = "[(Fin 1, Fin 6), (Fin 2, Fin 6), (Fin 4, Fin 6), (Fin 3, Fin 6)]"
  have five: "\<bar>5 :: real\<bar> \<le> max_f64 / 2" by (simp add: max_f64_def)
  have all: "\<forall>i<4. fst (?t ! i) = Fin 5"
    by (auto dest!: less_4_cases)
  have "length ?t = 4" by simp
  from degenerate_ratio_half [OF this, of "Fin 7" "Fin 2"] five all
  have t: "\<exists>ry. corner_ratios ?t (Fin 7) (Fin 2) = Inr (Fin 0.5, ry)" by blast
  have p: "pitch_top ?u = Inr (Fin 6)" "pitch_bottom ?u = Inr (Fin 6)"
    by (simp_all add: edges_4 float_of_int_def)
  have "length ?u = 4" by simp
  from degenerate_ratio_half [OF this, of "Fin 2" "Fin 9"] p
  have u: "\<exists>rx. corner_ratios ?u (Fin 2) (Fin 9) = Inr (rx, Fin 0.5)" by simp
  from t u show ?thesis by simp
qed

subsection \<open>The gaze depends on the orientation only\<close>

text \<open>
  Claim C9. Two poses with the same yaw and the same pitch, whatever their \<open>x\<close>, \<open>y\<close>,
  \<open>z\<close> and roll, give the same coarse coordinates, the same corner-interpolated
  coordinates and the same result of the gaze block (the same values or the same
  exception) in every state of the application; a trigger handled at either pose leaves
  the same state, so the calibration table does not depend on position or roll either.
\<close>

theorem gaze_orientation_only:
  assumes "pose_yaw p = pose_yaw q" and "pose_pitch p = pose_pitch q"
  shows "coarse_gaze st p = coarse_gaze st q
       \<and> corner_gaze pts p = corner_gaze pts q
       \<and> draw_gaze st p = draw_gaze st q
       \<and> handle_event p st ev = handle_event q st ev"
proof -
  have "handle_event p st ev = handle_event q st ev"
    using assms by (cases "(p, st, ev)" rule: handle_event.cases) simp_all
  moreover have coarse: "coarse_gaze st p = coarse_gaze st q"
    using assms by (simp add: coarse_gaze_def)
  moreover have corner: "corner_gaze pts p = corner_gaze pts q" for pts
    using assms by (simp add: corner_gaze_def)
  moreover have "draw_gaze st p = draw_gaze st q"
    unfolding draw_gaze_def coarse corner ..
  ultimately show ?thesis by simp
qed

text \<open>The scenario of the specification: corners at plus and minus 20, a pose with yaw 10 and pitch -5.\<close>

lemma rnd64_3_4: "rnd64 (3 / 4) = 3 / 4" "rnd64 (3 / 8) = 3 / 8"
  using rnd64_dyadic [of 3 2] rnd64_dyadic [of 3 3] by simp_all

lemma round_fin_3_4: "round_fin (3 / 4) = Fin (3 / 4)" "round_fin (3 / 8) = Fin (3 / 8)"
  using max_f64_pos by (simp_all add: round_fin_finite rnd64_3_4)

lemma corner_ratios_scenario:
  "corner_ratios [(Fin (- 20), Fin (- 20)), (Fin 20, Fin (- 20)), (Fin 20, Fin 20),
      (Fin (- 20), Fin 20)] (Fin 10) (Fin (- 5)) = Inr (Fin (3 / 4), Fin (3 / 8))"
  by (simp add: corner_ratios_def edges_4 float_of_int_def guarded_ratio_def fne0_def fsub_def
        round_fin_3_4)

text \<open>C9 on two poses that differ in position and roll, after a calibration.\<close>

theorem gaze_orientation_only_witness:
  "pose_yaw \<lparr>pose_x = Fin 1, pose_y = Fin 2, pose_z = Fin 3, pose_yaw = Fin 10, pose_pitch = Fin (- 5),
       pose_roll = Fin 4\<rparr>
     = pose_yaw \<lparr>pose_x = Fin 0, pose_y = Fin 0, pose_z = Fin 0, pose_yaw = Fin 10,
       pose_pitch = Fin (- 5), pose_roll = Fin 0\<rparr>
   \<and> draw_gaze
        (initial_state\<lparr>calib_points := [(Fin (- 20), Fin (- 20)), (Fin 20, Fin (- 20)),
           (Fin 20, Fin 20), (Fin (- 20), Fin 20)]\<rparr>)
        \<lparr>pose_x = Fin 1, pose_y = Fin 2, pose_z = Fin 3, pose_yaw = Fin 10, pose_pitch = Fin (- 5),
         pose_roll = Fin 4\<rparr>
     = draw_gaze
        (initial_state\<lparr>calib_points := [(Fin (- 20), Fin (- 20)), (Fin 20, Fin (- 20)),
           (Fin 20, Fin 20), (Fin (- 20), Fin 20)]\<rparr>)
        \<lparr>pose_x = Fin 0, pose_y = Fin 0, pose_z = Fin 0, pose_yaw = Fin 10, pose_pitch = Fin (- 5),
         pose_roll = Fin 0\<rparr>
   \<and> draw_gaze
        (initial_state\<lparr>calib_points := [(Fin (- 20), Fin (- 20)), (Fin 20, Fin (- 20)),
           (Fin 20, Fin 20), (Fin (- 20), Fin 20)]\<rparr>)
        \<lparr>pose_x = Fin 0, pose_y = Fin 0, pose_z = Fin 0, pose_yaw = Fin 10, pose_pitch = Fin (- 5),
         pose_roll = Fin 0\<rparr>
     = Inr (Some ((960, 270), True))"
proof -
  let ?p = "\<lparr>pose_x = Fin 1, pose_y = Fin 2, pose_z = Fin 3, pose_yaw = Fin 10,
      pose_pitch = Fin (- 5), pose_roll = Fin 4\<rparr>"
  let ?q = "\<lparr>pose_x = Fin 0, pose_y = Fin 0, pose_z = Fin 0, pose_yaw = Fin 10,
      pose_pitch = Fin (- 5), pose_roll = Fin 0\<rparr>"
  let ?st = "initial_state\<lparr>calib_points := [(Fin (- 20), Fin (- 20)), (Fin 20, Fin (- 20)),
      (Fin 20, Fin 20), (Fin (- 20), Fin 20)]\<rparr>"
  have yaw: "pose_yaw ?p = pose_yaw ?q" and pitch: "pose_pitch ?p = pose_pitch ?q"
    by simp_all
  from gaze_orientation_only [OF yaw pitch, of ?st]
  have same: "draw_gaze ?st ?p = draw_gaze ?st ?q"
    by blast
  have coarse: "coarse_gaze ?st ?q = Inr (960, 270)"
    by (simp add: coarse_gaze_def initial_state_def float_of_int_def fne0_def fsub_def
          round_fin_3_4 py_int_def WINDOW_WIDTH_def WINDOW_HEIGHT_def)
  have corner: "corner_gaze (calib_points ?st) ?q = Inr (960, 270)"
    by (simp add: corner_gaze_def corner_ratios_scenario float_of_int_def py_int_def
          WINDOW_WIDTH_def WINDOW_HEIGHT_def)
  have val: "draw_gaze ?st ?q = Inr (Some ((960, 270), True))"
    unfolding draw_gaze_def coarse corner by (simp add: initial_state_def)
  from yaw same val show ?thesis by (intro conjI)
qed

section \<open>Pose decoder\<close>

subsection \<open>Eight bytes and one double\<close>

lemma bit_rcat_rev:
  "bit (word_rcat (rev bs) :: double) n \<longleftrightarrow>
     n < 64 \<and> n div 8 < length bs \<and> bit (bs ! (n div 8)) (n mod 8)" for bs :: "byte list"
  using bit_horner_sum_uint_exp_iff [of bs n]
  by (simp add: word_rcat_def bit_word_of_int_iff)

lemma rcat_le_bytes:
  "word_rcat (rev (map (\<lambda>i. ucast (drop_bit (8 * i) w) :: byte) [0..<8])) = w" for w :: double
proof (rule bit_word_eqI)
  fix n :: nat
  assume "n < LENGTH(64)"
  then have n: "n < 64" "n div 8 < 8" by simp_all
  have "8 * (n div 8) + n mod 8 = n" by simp
  with n show "bit (word_rcat (rev (map (\<lambda>i. ucast (drop_bit (8 * i) w) :: byte) [0..<8])) :: double) n
      \<longleftrightarrow> bit w n"
    by (auto simp add: bit_rcat_rev bit_ucast_iff bit_drop_bit_eq simp del: upt_Suc)
qed

lemma le_bytes_rcat:
  assumes "length bs = 8"
  shows "map (\<lambda>i. ucast (drop_bit (8 * i) (word_rcat (rev bs) :: double)) :: byte) [0..<8] = bs"
proof (rule nth_equalityI)
  show "length (map (\<lambda>i. ucast (drop_bit (8 * i) (word_rcat (rev bs) :: double)) :: byte) [0..<8])
      = length bs"
    using assms by simp
next
  fix i
  assume "i < length (map (\<lambda>i. ucast (drop_bit (8 * i) (word_rcat (rev bs) :: double)) :: byte) [0..<8])"
  then have i: "i < 8" by simp
  have "(ucast (drop_bit (8 * i) (word_rcat (rev bs) :: double)) :: byte) = bs ! i"
  proof (rule bit_word_eqI)
    fix k :: nat
    assume "k < LENGTH(8)"
    then have k: "k < 8" by simp
    with i have "8 * i + k < 64" "(8 * i + k) div 8 = i" "(8 * i + k) mod 8 = k"
      by simp_all
    with k i assms
    show "bit (ucast (drop_bit (8 * i) (word_rcat (rev bs) :: double)) :: byte) k
        \<longleftrightarrow> bit (bs ! i) k"
      by (simp add: bit_ucast_iff bit_drop_bit_eq bit_rcat_rev add.commute)
  qed
  with i show "map (\<lambda>i. ucast (drop_bit (8 * i) (word_rcat (rev bs) :: double)) :: byte) [0..<8] ! i
      = bs ! i"
    by (simp del: upt_Suc)
qed

lemma length_pack_d [simp]: "length (pack_d bo w) = 8"
  by (cases bo) (simp_all add: pack_d_def)

lemma unpack_pack_d [simp]: "unpack_d bo (pack_d bo w) = w"
  using rcat_le_bytes [of w] by (cases bo) (simp_all add: unpack_d_def pack_d_def Let_def del: upt_Suc)

lemma pack_unpack_d: "length bs = 8 \<Longrightarrow> pack_d bo (unpack_d bo bs) = bs"
  using le_bytes_rcat [of bs] le_bytes_rcat [of "rev bs"]
  by (cases bo) (simp_all add: unpack_d_def pack_d_def Let_def del: upt_Suc)

text \<open>The double 10.0 has the pattern \<open>0x4024000000000000\<close>.\<close>

lemma unpack_d_example:
  "unpack_d LittleEndian [0, 0, 0, 0, 0, 0, 0x24, 0x40] = 0x4024000000000000"
  by (simp add: unpack_d_def word_rcat_def)

subsection \<open>Forty-eight bytes and six doubles\<close>

lemma length_struct_pack [simp]: "length (struct_pack_dddddd bo p) = 48"
  by (simp add: struct_pack_dddddd_def)

lemma struct_unpack_pack: "struct_unpack_dddddd bo (struct_pack_dddddd bo p) = Inr p"
proof -
  have "struct_unpack_dddddd bo (struct_pack_dddddd bo p) =
      Inr \<lparr>pose_x = pose_x p, pose_y = pose_y p, pose_z = pose_z p,
           pose_yaw = pose_yaw p, pose_pitch = pose_pitch p, pose_roll = pose_roll p\<rparr>"
    unfolding struct_unpack_dddddd_def
    by (simp add: struct_pack_dddddd_def)
  then show ?thesis by simp
qed

lemma split_48:
  assumes "length data = 48"
  shows "take 8 data @ take 8 (drop 8 data) @ take 8 (drop 16 data) @ take 8 (drop 24 data)
           @ take 8 (drop 32 data) @ take 8 (drop 40 data) = (data :: 'a list)"
proof -
  have step: "take 8 (drop k xs) @ drop (k + 8) xs = drop k xs" for k and xs :: "'a list"
    by (metis add.commute append_take_drop_id drop_drop)
  have "take 8 (drop 40 data) = drop 40 data" using assms by simp
  then show ?thesis
    using step [of 32 data] step [of 24 data] step [of 16 data] step [of 8 data] step [of 0 data]
    by simp
qed

lemma struct_pack_unpack:
  assumes "length data = 48" and "struct_unpack_dddddd bo data = Inr p"
  shows "struct_pack_dddddd bo p = data"
proof -
  from assms have p: "p = \<lparr>pose_x = unpack_d bo (take 8 data),
                pose_y = unpack_d bo (take 8 (drop 8 data)),
                pose_z = unpack_d bo (take 8 (drop 16 data)),
                pose_yaw = unpack_d bo (take 8 (drop 24 data)),
                pose_pitch = unpack_d bo (take 8 (drop 32 data)),
                pose_roll = unpack_d bo (take 8 (drop 40 data))\<rparr>"
    by (simp add: struct_unpack_dddddd_def)
  have "struct_pack_dddddd bo p =
      take 8 data @ take 8 (drop 8 data) @ take 8 (drop 16 data) @ take 8 (drop 24 data)
           @ take 8 (drop 32 data) @ take 8 (drop 40 data)"
    unfolding struct_pack_dddddd_def p using assms(1) by (simp add: pack_unpack_d)
  with split_48 [OF assms(1)] show ?thesis by simp
qed

lemma recvfrom_48: "length payload = 48 \<Longrightarrow> recvfrom_1024 payload = payload"
  by (simp add: recvfrom_1024_def)

lemma recvfrom_not_48: "length payload \<noteq> 48 \<Longrightarrow> length (recvfrom_1024 payload) \<noteq> 48"
  by (simp add: recvfrom_1024_def)

lemma decode_datagram_48:
  "length payload = 48 \<Longrightarrow> decode_datagram bo pose payload = struct_unpack_dddddd bo payload"
  by (simp add: decode_datagram_def recvfrom_48)

text \<open>The decode attempt raises nothing, whatever arrives, and neither does the drain loop.\<close>

lemma decode_datagram_total: "\<exists>pose'. decode_datagram bo pose payload = Inr pose'"
  by (simp add: decode_datagram_def struct_unpack_dddddd_def Let_def)

lemma drain_total: "\<exists>pose'. drain bo pose ds = Inr pose'"
proof (induction ds arbitrary: pose)
  case Nil
  then show ?case by simp
next
  case (Cons d ds)
  obtain pose1 where "decode_datagram bo pose d = Inr pose1"
    using decode_datagram_total by blast
  with Cons.IH [of pose1] show ?case by simp
qed

subsection \<open>Datagrams of another length\<close>

text \<open>
  Claim C4. A datagram whose payload does not have 48 bytes leaves the pose as it is, in
  all six fields, and the decode attempt raises nothing.
\<close>

theorem wrong_length_ignored:
  "length payload \<noteq> 48 \<Longrightarrow> decode_datagram bo pose payload = Inr pose"
  using recvfrom_not_48 [of payload] by (simp add: decode_datagram_def Let_def)

text \<open>C4 on a payload of three bytes.\<close>

theorem wrong_length_ignored_witness:
  "length [1, 2, 3 :: byte] \<noteq> 48
   \<and> decode_datagram LittleEndian
        \<lparr>pose_x = 1, pose_y = 2, pose_z = 3, pose_yaw = 4, pose_pitch = 5, pose_roll = 6\<rparr> [1, 2, 3]
     = Inr \<lparr>pose_x = 1, pose_y = 2, pose_z = 3, pose_yaw = 4, pose_pitch = 5, pose_roll = 6\<rparr>"
  using wrong_length_ignored [of "[1, 2, 3]" LittleEndian
      "\<lparr>pose_x = 1, pose_y = 2, pose_z = 3, pose_yaw = 4, pose_pitch = 5, pose_roll = 6\<rparr>"]
  by simp

subsection \<open>Datagrams of 48 bytes\<close>

text \<open>
  Claim C5. A payload of 48 bytes replaces the pose by the six doubles it holds, in the
  order \<open>x, y, z, yaw, pitch, roll\<close>: field number \<open>i\<close> is the double in the bytes
  \<open>8 * i\<close> to \<open>8 * i + 7\<close>, read in the byte order of the host. Encoding the decoded
  pose in the same format gives the payload back; the encoding of any pose has 48 bytes
  and decodes to that pose; so decoding is a bijection between the payloads of 48 bytes
  and the poses. Doubles are compared as bit patterns.
\<close>

theorem decode_bijection:
  "(length payload = 48 \<longrightarrow>
      (\<exists>p. decode_datagram bo pose payload = Inr p
         \<and> p = \<lparr>pose_x = unpack_d bo (take 8 payload),
                pose_y = unpack_d bo (take 8 (drop 8 payload)),
                pose_z = unpack_d bo (take 8 (drop 16 payload)),
                pose_yaw = unpack_d bo (take 8 (drop 24 payload)),
                pose_pitch = unpack_d bo (take 8 (drop 32 payload)),
                pose_roll = unpack_d bo (take 8 (drop 40 payload))\<rparr>
         \<and> struct_pack_dddddd bo p = payload))
   \<and> length (struct_pack_dddddd bo q) = 48
   \<and> decode_datagram bo pose (struct_pack_dddddd bo q) = Inr q
   \<and> bij_betw (decode_datagram bo pose) {d. length d = 48} (range Inr)"
proof (intro conjI impI)
  assume len: "length payload = 48"
  then have "struct_unpack_dddddd bo payload = Inr \<lparr>pose_x = unpack_d bo (take 8 payload),
                pose_y = unpack_d bo (take 8 (drop 8 payload)),
                pose_z = unpack_d bo (take 8 (drop 16 payload)),
                pose_yaw = unpack_d bo (take 8 (drop 24 payload)),
                pose_pitch = unpack_d bo (take 8 (drop 32 payload)),
                pose_roll = unpack_d bo (take 8 (drop 40 payload))\<rparr>"
    by (simp add: struct_unpack_dddddd_def)
  with len struct_pack_unpack [OF len this]
  show "\<exists>p. decode_datagram bo pose payload = Inr p
         \<and> p = \<lparr>pose_x = unpack_d bo (take 8 payload),
                pose_y = unpack_d bo (take 8 (drop 8 payload)),
                pose_z = unpack_d bo (take 8 (drop 16 payload)),
                pose_yaw = unpack_d bo (take 8 (drop 24 payload)),
                pose_pitch = unpack_d bo (take 8 (drop 32 payload)),
                pose_roll = unpack_d bo (take 8 (drop 40 payload))\<rparr>
         \<and> struct_pack_dddddd bo p = payload"
    by (simp add: decode_datagram_48)
next
  show "length (struct_pack_dddddd bo q) = 48" by simp
next
  show "decode_datagram bo pose (struct_pack_dddddd bo q) = Inr q"
    by (simp add: decode_datagram_48 struct_unpack_pack)
next
  let ?enc = "\<lambda>r. case r of Inr p \<Rightarrow> struct_pack_dddddd bo p | Inl e \<Rightarrow> []"
  show "bij_betw (decode_datagram bo pose) {d. length d = 48} (range Inr)"
  proof (rule bij_betw_byWitness [where f' = ?enc])
    show "\<forall>d\<in>{d. length d = 48}. ?enc (decode_datagram bo pose d) = d"
    proof
      fix d :: "byte list"
      assume "d \<in> {d. length d = 48}"
      then have len: "length d = 48" by simp
      then obtain p where p: "struct_unpack_dddddd bo d = Inr p"
        by (simp add: struct_unpack_dddddd_def)
      from struct_pack_unpack [OF len p] show "?enc (decode_datagram bo pose d) = d"
        by (simp add: decode_datagram_48 len p)
    qed
    show "\<forall>r\<in>range Inr. decode_datagram bo pose (?enc r) = r"
      by (auto simp: decode_datagram_48 struct_unpack_pack)
    show "decode_datagram bo pose ` {d. length d = 48} \<subseteq> range Inr"
      by (auto simp: decode_datagram_48 struct_unpack_dddddd_def)
    show "?enc ` range Inr \<subseteq> {d. length d = 48}"
      by auto
  qed
qed

text \<open>
  C5 on the little-endian payload of \<open>x = y = z = 0.0\<close>, \<open>yaw = 10.0\<close>,
  \<open>pitch = -5.0\<close>, \<open>roll = 0.0\<close>.
\<close>

theorem decode_bijection_witness:
  "length ([0, 0, 0, 0, 0, 0, 0, 0,  0, 0, 0, 0, 0, 0, 0, 0,  0, 0, 0, 0, 0, 0, 0, 0,
      0, 0, 0, 0, 0, 0, 0x24, 0x40,  0, 0, 0, 0, 0, 0, 0x14, 0xC0,  0, 0, 0, 0, 0, 0, 0, 0] :: byte list) = 48
   \<and> decode_datagram LittleEndian
        \<lparr>pose_x = 1, pose_y = 2, pose_z = 3, pose_yaw = 4, pose_pitch = 5, pose_roll = 6\<rparr>
        [0, 0, 0, 0, 0, 0, 0, 0,  0, 0, 0, 0, 0, 0, 0, 0,  0, 0, 0, 0, 0, 0, 0, 0,
      0, 0, 0, 0, 0, 0, 0x24, 0x40,  0, 0, 0, 0, 0, 0, 0x14, 0xC0,  0, 0, 0, 0, 0, 0, 0, 0]
     = Inr \<lparr>pose_x = 0, pose_y = 0, pose_z = 0, pose_yaw = 0x4024000000000000,
        pose_pitch = 0xC014000000000000, pose_roll = 0\<rparr>
   \<and> struct_pack_dddddd LittleEndian
        \<lparr>pose_x = 0, pose_y = 0, pose_z = 0, pose_yaw = 0x4024000000000000,
        pose_pitch = 0xC014000000000000, pose_roll = 0\<rparr>
     = [0, 0, 0, 0, 0, 0, 0, 0,  0, 0, 0, 0, 0, 0, 0, 0,  0, 0, 0, 0, 0, 0, 0, 0,
      0, 0, 0, 0, 0, 0, 0x24, 0x40,  0, 0, 0, 0, 0, 0, 0x14, 0xC0,  0, 0, 0, 0, 0, 0, 0, 0]"
  using decode_bijection [of "[0, 0, 0, 0, 0, 0, 0, 0,  0, 0, 0, 0, 0, 0, 0, 0,  0, 0, 0, 0, 0, 0, 0, 0,
      0, 0, 0, 0, 0, 0, 0x24, 0x40,  0, 0, 0, 0, 0, 0, 0x14, 0xC0,  0, 0, 0, 0, 0, 0, 0, 0]" LittleEndian
      "\<lparr>pose_x = 1, pose_y = 2, pose_z = 3, pose_yaw = 4, pose_pitch = 5, pose_roll = 6\<rparr>"]
  by (simp add: unpack_d_def word_rcat_def)

end
